theory Spec2Isabelle
  imports Complex_Main "HOL-Library.Multiset" "HOL-Library.Char_ord" "HOL-Library.List_Lexorder"
    "HOL-Library.Product_Lexorder"
begin

section \<open>Python values and list operations used by BINDetect\_functions.py\<close>

text \<open>
  The exceptions the two functions can leave through. \<open>SystemExit\<close> is what
  \<^verbatim>\<open>sys.exit()\<close> raises. \<open>NonFinite\<close> is not an exception of the source: it marks the
  places where numpy goes on with \<^verbatim>\<open>inf\<close> or \<^verbatim>\<open>nan\<close> (a mean of no values, a division by
  zero, a logarithm of a non-positive number), which this development, working over the
  real numbers, does not follow. \<open>NotUniqueColumn\<close> marks a column label that occurs
  twice in a header, where pandas no longer returns a single column.
\<close>

datatype py_error =
    ValueError | IndexError | KeyError | OSError | TypeError | SystemExit
  | NonFinite | NotUniqueColumn

text \<open>A cell of a table read by \<^verbatim>\<open>np.genfromtxt(..., dtype=None)\<close>: text, integer or float.\<close>

datatype cell = S string | I int | F real

text \<open>Decimal notation of a number, \<^verbatim>\<open>str(n)\<close>.\<close>

definition digit_char :: "nat \<Rightarrow> char" where
  "digit_char d = ''0123456789'' ! (d mod 10)"

fun str_nat :: "nat \<Rightarrow> string" where
  "str_nat n = (if n < 10 then [digit_char n] else str_nat (n div 10) @ [digit_char (n mod 10)])"

declare str_nat.simps [simp del]

definition str_int :: "int \<Rightarrow> string" where
  "str_int i = (if i < 0 then CHR ''-'' # str_nat (nat (- i)) else str_nat (nat i))"

text \<open>
  A slice bound against a list of length \<open>n\<close>: a negative bound counts from the end,
  and every bound is clamped into \<open>0..n\<close>.
\<close>

definition slice_bound :: "nat \<Rightarrow> int \<Rightarrow> nat" where
  "slice_bound n i = (if i < 0 then nat (max 0 (int n + i)) else min n (nat i))"

text \<open>\<^verbatim>\<open>xs[a:b]\<close>; \<open>None\<close> is the omitted bound.\<close>

definition slice :: "'a list \<Rightarrow> int option \<Rightarrow> int option \<Rightarrow> 'a list" where
  "slice xs a b =
     (let n = length xs;
          lo = (case a of None \<Rightarrow> 0 | Some i \<Rightarrow> slice_bound n i);
          hi = (case b of None \<Rightarrow> n | Some j \<Rightarrow> slice_bound n j)
      in take (hi - lo) (drop lo xs))"

text \<open>
  \<^verbatim>\<open>xs[a:b] = ys\<close>: the elements from \<open>lo\<close> up to \<open>hi\<close> are replaced by \<open>ys\<close>, whatever
  the length of \<open>ys\<close>; the list grows or shrinks.
\<close>

definition slice_assign :: "'a list \<Rightarrow> int option \<Rightarrow> int option \<Rightarrow> 'a list \<Rightarrow> 'a list" where
  "slice_assign xs a b ys =
     (let n = length xs;
          lo = (case a of None \<Rightarrow> 0 | Some i \<Rightarrow> slice_bound n i);
          hi = (case b of None \<Rightarrow> n | Some j \<Rightarrow> slice_bound n j)
      in take lo xs @ ys @ drop (max lo hi) xs)"

text \<open>
  Where an index \<open>i\<close> points in a list of \<open>n\<close> items: \<open>-n, ..., -1\<close> count from the
  end; outside \<open>-n, ..., n - 1\<close> there is no such item.
\<close>

definition position :: "nat \<Rightarrow> int \<Rightarrow> nat option" where
  "position n i =
     (if 0 \<le> i \<and> i < int n then Some (nat i)
      else if - int n \<le> i \<and> i < 0 then Some (nat (int n + i))
      else None)"

text \<open>\<^verbatim>\<open>xs[i]\<close> and \<^verbatim>\<open>xs[i] = v\<close>, which raise \<open>IndexError\<close> where there is no such item.\<close>

definition item :: "'a list \<Rightarrow> int \<Rightarrow> py_error + 'a" where
  "item xs i = (case position (length xs) i of None \<Rightarrow> Inl IndexError | Some j \<Rightarrow> Inr (xs ! j))"

definition set_item :: "'a list \<Rightarrow> int \<Rightarrow> 'a \<Rightarrow> py_error + 'a list" where
  "set_item xs i v =
     (case position (length xs) i of None \<Rightarrow> Inl IndexError | Some j \<Rightarrow> Inr (xs[j := v]))"

text \<open>\<^verbatim>\<open>xs[mask]\<close> with a list of booleans: the items at the positions where the mask holds.\<close>

definition boolean_index :: "'a list \<Rightarrow> bool list \<Rightarrow> 'a list" where
  "boolean_index xs bs = map fst (filter snd (zip xs bs))"

section \<open>The column names of the per-motif table (process\_tfbs, lines 210--222)\<close>

definition tfbs_columns :: "string list" where
  "tfbs_columns =
     [''TFBS_chr'', ''TFBS_start'', ''TFBS_end'', ''TFBS_name'', ''TFBS_score'', ''TFBS_strand'']"

definition peak_columns :: "nat \<Rightarrow> string list" where
  "peak_columns no_peak_col =
     [''peak_chr'', ''peak_start'', ''peak_end'']
     @ map (\<lambda>num. ''additional_'' @ str_nat (num + 1)) [0 ..< nat (int no_peak_col - 3)]"

definition score_columns :: "string list \<Rightarrow> string list" where
  "score_columns cond_names = map (\<lambda>condition. condition @ ''_score'') cond_names"

text \<open>
  The list \<open>header\<close> as lines 211--221 build it for a table of \<open>no_cols\<close> columns.
  Line 222 assigns it to the table's columns, which raises \<open>ValueError\<close> when its
  length is not \<open>no_cols\<close>.
\<close>

definition make_header :: "nat \<Rightarrow> string list option \<Rightarrow> string list \<Rightarrow> py_error + string list" where
  "make_header no_cols peak_header_list cond_names =
     (let no_cond = int (length cond_names);
          header0 = replicate no_cols '''';
          header1 = slice_assign header0 None (Some 6) tfbs_columns;
          header2 =
            (case peak_header_list of
               Some phl \<Rightarrow> slice_assign header1 (Some 6) (Some (6 + int (length phl))) phl
             | None \<Rightarrow>
                 (let no_peak_col = length (slice header1 (Some 6) None)
                  in slice_assign header1 (Some 6) (Some (6 + int no_peak_col))
                       (peak_columns no_peak_col)));
          header3 = slice_assign header2 (Some (- no_cond)) None (score_columns cond_names)
      in case set_item header3 (- no_cond - 1) ''GC'' of
           Inl e \<Rightarrow> Inl e
         | Inr header4 \<Rightarrow> if length header4 = no_cols then Inr header4 else Inl ValueError)"

section \<open>Sequencing of computations that may raise\<close>

definition and_then :: "'e + 'a \<Rightarrow> ('a \<Rightarrow> 'e + 'b) \<Rightarrow> 'e + 'b" where
  "and_then m f = (case m of Inl e \<Rightarrow> Inl e | Inr x \<Rightarrow> f x)"

text \<open>A comprehension or loop whose body may raise: the first exception ends it.\<close>

fun for_each :: "('a \<Rightarrow> 'e + 'b) \<Rightarrow> 'a list \<Rightarrow> 'e + 'b list" where
  "for_each f [] = Inr []"
| "for_each f (x # xs) =
     (case f x of
        Inl e \<Rightarrow> Inl e
      | Inr y \<Rightarrow> (case for_each f xs of Inl e \<Rightarrow> Inl e | Inr ys \<Rightarrow> Inr (y # ys)))"

text \<open>A loop that threads a state through a body that may raise.\<close>

fun for_loop :: "('s \<Rightarrow> 'a \<Rightarrow> 'e + 's) \<Rightarrow> 's \<Rightarrow> 'a list \<Rightarrow> 'e + 's" where
  "for_loop body s [] = Inr s"
| "for_loop body s (x # xs) =
     (case body s x of Inl e \<Rightarrow> Inl e | Inr s' \<Rightarrow> for_loop body s' xs)"

section \<open>Numbers: rounding, means, the normal fit\<close>

text \<open>
  Floats are taken as real numbers. \<open>rint\<close> rounds to the nearest integer, a tie to the
  even one, as numpy does; \<open>round5\<close> is \<^verbatim>\<open>np.round(x, 5)\<close>, \<^verbatim>\<open>Series.round(5)\<close> and
  \<^verbatim>\<open>round(x, 5)\<close> of a numpy float.
\<close>

definition rint :: "real \<Rightarrow> int" where
  "rint x =
     (let f = \<lfloor>x\<rfloor>; d = x - of_int f
      in if d < 1 / 2 then f else if 1 / 2 < d then f + 1 else if even f then f else f + 1)"

definition round5 :: "real \<Rightarrow> real" where
  "round5 x = of_int (rint (x * 100000)) / 100000"

text \<open>\<^verbatim>\<open>np.mean\<close>: of no values it is \<^verbatim>\<open>nan\<close>.\<close>

definition np_mean :: "real list \<Rightarrow> py_error + real" where
  "np_mean xs = (if xs = [] then Inl NonFinite else Inr (sum_list xs / real (length xs)))"

text \<open>
  \<^verbatim>\<open>scipy.stats.norm.fit\<close>: the maximum-likelihood estimates, the mean and the
  square root of the mean squared deviation from it.
\<close>

definition norm_fit :: "real list \<Rightarrow> py_error + real \<times> real" where
  "norm_fit xs =
     (if xs = [] then Inl NonFinite
      else (let loc = sum_list xs / real (length xs)
            in Inr (loc, sqrt (sum_list (map (\<lambda>x. (x - loc)\<^sup>2) xs) / real (length xs)))))"

text \<open>\<^verbatim>\<open>np.log2(np.true_divide(a, b))\<close>, where it is a finite number.\<close>

definition log2_ratio :: "real \<Rightarrow> real \<Rightarrow> py_error + real" where
  "log2_ratio a b = (if b \<noteq> 0 \<and> 0 < a / b then Inr (log 2 (a / b)) else Inl NonFinite)"

section \<open>Tables (pandas data frames)\<close>

record table =
  columns :: "string list"
  rows :: "cell list list"

definition shape :: "table \<Rightarrow> nat \<times> nat" where
  "shape t = (length (rows t), length (columns t))"

text \<open>The position of a column label; a label that is not there raises \<open>KeyError\<close>.\<close>

definition get_loc :: "string list \<Rightarrow> string \<Rightarrow> py_error + nat" where
  "get_loc header name =
     (if name \<in> set header then Inr (length (takeWhile (\<lambda>h. h \<noteq> name) header)) else Inl KeyError)"

text \<open>\<^verbatim>\<open>t[name].values\<close>\<close>

definition column :: "table \<Rightarrow> string \<Rightarrow> py_error + cell list" where
  "column t name = and_then (get_loc (columns t) name) (\<lambda>i. Inr (map (\<lambda>r. r ! i) (rows t)))"

definition num :: "cell \<Rightarrow> py_error + real" where
  "num c = (case c of I i \<Rightarrow> Inr (of_int i) | F x \<Rightarrow> Inr x | S s \<Rightarrow> Inl TypeError)"

definition num_column :: "table \<Rightarrow> string \<Rightarrow> py_error + real list" where
  "num_column t name = and_then (column t name) (for_each num)"

text \<open>\<^verbatim>\<open>t[name] = vals\<close>: an existing column is replaced, a new one is appended.\<close>

definition set_column :: "table \<Rightarrow> string \<Rightarrow> cell list \<Rightarrow> table" where
  "set_column t name vals =
     (if name \<in> set (columns t)
      then (let i = length (takeWhile (\<lambda>h. h \<noteq> name) (columns t))
            in t\<lparr>rows := map2 (\<lambda>r v. r[i := v]) (rows t) vals\<rparr>)
      else t\<lparr>columns := columns t @ [name], rows := map2 (\<lambda>r v. r @ [v]) (rows t) vals\<rparr>)"

text \<open>The rows of \<open>t\<close> restricted to the columns \<open>names\<close>, as \<^verbatim>\<open>to_csv(columns=names)\<close> writes them.\<close>

definition select_columns :: "table \<Rightarrow> string list \<Rightarrow> py_error + cell list list" where
  "select_columns t names =
     and_then (for_each (get_loc (columns t)) names)
       (\<lambda>idx. Inr (map (\<lambda>r. map (\<lambda>i. r ! i) idx) (rows t)))"

text \<open>
  The order of the values of one column: numbers by value, text by code point.
  \<open>sort_values\<close> orders the rows by the listed columns, the first one first; rows with
  equal keys keep their order.
\<close>

definition cell_key :: "cell \<Rightarrow> nat \<times> real \<times> string" where
  "cell_key c = (case c of I i \<Rightarrow> (0, of_int i, []) | F x \<Rightarrow> (0, x, []) | S s \<Rightarrow> (1, 0, s))"

definition sort_values :: "table \<Rightarrow> string list \<Rightarrow> py_error + table" where
  "sort_values t names =
     and_then (for_each (get_loc (columns t)) names)
       (\<lambda>idx. Inr (t\<lparr>rows := sort_key (\<lambda>r. map (\<lambda>i. cell_key (r ! i)) idx) (rows t)\<rparr>))"

text \<open>\<^verbatim>\<open>t[name] = t[name].round(5)\<close>\<close>

definition round_cell :: "cell \<Rightarrow> py_error + cell" where
  "round_cell c = (case c of F x \<Rightarrow> Inr (F (round5 x)) | I i \<Rightarrow> Inr (I i) | S s \<Rightarrow> Inl TypeError)"

definition round_column :: "table \<Rightarrow> string \<Rightarrow> py_error + table" where
  "round_column t name =
     and_then (column t name) (\<lambda>vals.
     and_then (for_each round_cell vals) (\<lambda>vals'. Inr (set_column t name vals')))"

section \<open>process\_tfbs: the statistics of one motif\<close>

subsection \<open>Arguments, collaborators, files\<close>

text \<open>The fields of \<^verbatim>\<open>args\<close> that \<^verbatim>\<open>process_tfbs\<close> reads.\<close>

record args =
  outdir :: string
  cond_names :: "string list"
  comparisons :: "(string \<times> string) list"
  peak_header_list :: "string list option"
  thresholds :: "string \<rightharpoonup> real"
  pseudo :: real

text \<open>
  Library functions that are kept abstract: scipy's
  \<^verbatim>\<open>ttest_ind_from_stats(mean1, std1, nobs1, mean2, std2, nobs2, equal_var=False)[1]\<close>
  and Python's \<^verbatim>\<open>str\<close> of a float.
\<close>

record libs =
  ttest_ind_from_stats :: "real \<Rightarrow> real \<Rightarrow> nat \<Rightarrow> real \<Rightarrow> real \<Rightarrow> nat \<Rightarrow> real"
  float_str :: "real \<Rightarrow> string"

text \<open>
  \<^verbatim>\<open>os.path.join\<close> on a POSIX system: a component that starts with a slash replaces
  what came before, and a slash is put between two components unless the left one is
  empty or ends with one.
\<close>

definition join_step :: "string \<Rightarrow> string \<Rightarrow> string" where
  "join_step path b =
     (if b \<noteq> [] \<and> hd b = CHR ''/'' then b
      else if path = [] \<or> last path = CHR ''/'' then path @ b
      else path @ ''/'' @ b)"

definition os_path_join :: "string \<Rightarrow> string list \<Rightarrow> string" where
  "os_path_join a p = foldl join_step a p"

text \<open>
  The file system as \<^verbatim>\<open>process_tfbs\<close> meets it. \<open>genfromtxt\<close> is what reading the
  file at a path gives: the parsed lines, or the exception. The other fields say which
  writes and removals raise.
\<close>

record files =
  genfromtxt :: "string \<Rightarrow> py_error + cell list list"
  to_csv_raises :: "string \<Rightarrow> py_error option"
  to_excel_raises :: "string \<Rightarrow> bool"
  remove_raises :: "string \<Rightarrow> bool"

text \<open>What a call does besides returning: files written and removed, lines printed and logged.\<close>

datatype event =
    Wrote string "string list option" "cell list list"
  | WroteExcel string "string list" "cell list list"
  | Removed string
  | Printed string
  | Logged string

type_synonym 'a run = "event list \<times> (py_error + 'a)"

definition pure :: "py_error + 'a \<Rightarrow> 'a run" where
  "pure r = ([], r)"

definition run_then :: "'a run \<Rightarrow> ('a \<Rightarrow> 'b run) \<Rightarrow> 'b run" where
  "run_then m f =
     (case m of
        (evs, Inl e) \<Rightarrow> (evs, Inl e)
      | (evs, Inr x) \<Rightarrow> (case f x of (evs', r) \<Rightarrow> (evs @ evs', r)))"

fun run_each :: "('a \<Rightarrow> unit run) \<Rightarrow> 'a list \<Rightarrow> unit run" where
  "run_each f [] = ([], Inr ())"
| "run_each f (x # xs) = run_then (f x) (\<lambda>_. run_each f xs)"

text \<open>\<^verbatim>\<open>t.to_csv(path, sep="\t", index=False, header=..., columns=names)\<close>\<close>

definition to_csv :: "files \<Rightarrow> string \<Rightarrow> bool \<Rightarrow> table \<Rightarrow> string list \<Rightarrow> unit run" where
  "to_csv fs path with_header t names =
     (case select_columns t names of
        Inl e \<Rightarrow> ([], Inl e)
      | Inr content \<Rightarrow>
          (case to_csv_raises fs path of
             Some e \<Rightarrow> ([], Inl e)
           | None \<Rightarrow> ([Wrote path (if with_header then Some names else None) content], Inr ())))"

subsection \<open>The overview row (lines 195--200, 208)\<close>

type_synonym info_table = "(string \<times> real) list"

definition info_columns :: "args \<Rightarrow> string list" where
  "info_columns a =
     [''total_tfbs'']
     @ map (\<lambda>(cond, metric). cond @ ''_'' @ metric)
         (List.product (cond_names a) [''mean_score'', ''bound''])
     @ map (\<lambda>(comparison, metric). fst comparison @ ''_'' @ snd comparison @ ''_'' @ metric)
         (List.product (comparisons a) [''change'', ''pvalue''])"

definition new_info_table :: "args \<Rightarrow> info_table" where
  "new_info_table a = map (\<lambda>c. (c, 0)) (info_columns a)"

text \<open>\<^verbatim>\<open>info_table.at[TF_name, col] = v\<close>\<close>

definition at_set :: "info_table \<Rightarrow> string \<Rightarrow> real \<Rightarrow> info_table" where
  "at_set info col v =
     (if col \<in> set (map fst info)
      then map (\<lambda>(c, x). if c = col then (c, v) else (c, x)) info
      else info @ [(col, v)])"

subsection \<open>Reading the occurrences and naming the columns (lines 202--222)\<close>

text \<open>
  \<^verbatim>\<open>np.genfromtxt\<close> raises \<open>ValueError\<close> when the lines do not all have the same number
  of columns.
\<close>

definition load_table :: "files \<Rightarrow> args \<Rightarrow> string \<Rightarrow> py_error + table" where
  "load_table fs a filename =
     and_then (genfromtxt fs filename) (\<lambda>arr.
       let no_cols = (case arr of [] \<Rightarrow> 0 | r # _ \<Rightarrow> length r)
       in if \<not> list_all (\<lambda>r. length r = no_cols) arr then Inl ValueError
          else and_then (make_header no_cols (peak_header_list a) (cond_names a)) (\<lambda>header.
                 if distinct header then Inr \<lparr>columns = header, rows = arr\<rparr>
                 else Inl NotUniqueColumn))"

subsection \<open>Sorting and formatting (lines 224--227)\<close>

definition sort_and_format :: "args \<Rightarrow> table \<Rightarrow> py_error + table" where
  "sort_and_format a t =
     and_then (sort_values t [''TFBS_chr'', ''TFBS_start'', ''TFBS_end'']) (\<lambda>t'.
       for_loop (\<lambda>tb condition. round_column tb (condition @ ''_score'')) t' (cond_names a))"

subsection \<open>The bound/unbound split (lines 234--241)\<close>

definition bound_split_step ::
  "args \<Rightarrow> table \<times> info_table \<Rightarrow> string \<Rightarrow> py_error + table \<times> info_table" where
  "bound_split_step a s condition =
     (case s of (t, info) \<Rightarrow>
        (case thresholds a condition of
           None \<Rightarrow> Inl KeyError
         | Some threshold \<Rightarrow>
             and_then (num_column t (condition @ ''_score'')) (\<lambda>scores.
               let t' = set_column t (condition @ ''_bound'')
                          (map (\<lambda>x. I (if threshold < x then 1 else 0)) scores)
               in and_then (num_column t' (condition @ ''_score'')) (\<lambda>scores'.
                  and_then (np_mean scores') (\<lambda>m.
                  and_then (num_column t' (condition @ ''_bound'')) (\<lambda>bound.
                    Inr (t', at_set (at_set info (condition @ ''_mean_score'') (round5 m))
                               (condition @ ''_bound'') (sum_list bound))))))))"

definition bound_split :: "args \<Rightarrow> table \<times> info_table \<Rightarrow> py_error + table \<times> info_table" where
  "bound_split a s = for_loop (bound_split_step a) s (cond_names a)"

subsection \<open>The bound and unbound files (lines 243--255)\<close>

text \<open>
  \<^verbatim>\<open>sort_values([name], ascending=False)\<close>: pandas reverses the rows, sorts ascending and
  reverses the result.
\<close>

definition sort_values_descending :: "table \<Rightarrow> string \<Rightarrow> py_error + table" where
  "sort_values_descending t name =
     and_then (get_loc (columns t) name)
       (\<lambda>i. Inr (t\<lparr>rows := rev (sort_key (\<lambda>r. cell_key (r ! i)) (rev (rows t)))\<rparr>))"

definition write_subset ::
  "files \<Rightarrow> string \<Rightarrow> string \<Rightarrow> args \<Rightarrow> string list \<Rightarrow> table \<Rightarrow> string \<times> string \<Rightarrow> unit run" where
  "write_subset fs bed_outdir TF_name a header t cs =
     (case cs of (condition, state) \<Rightarrow>
        (let outfile = os_path_join bed_outdir [TF_name @ ''_'' @ condition @ ''_'' @ state @ ''.bed''];
             chosen_bool = (if state = ''bound'' then 1 else 0)
         in case column t (condition @ ''_bound'') of
              Inl e \<Rightarrow> ([], Inl e)
            | Inr flags \<Rightarrow>
                (let subset = t\<lparr>rows := map fst (filter (\<lambda>(r, b). cell_key b = cell_key (I chosen_bool))
                                                 (zip (rows t) flags))\<rparr>
                 in case sort_values_descending subset (condition @ ''_score'') of
                      Inl e \<Rightarrow> ([], Inl e)
                    | Inr sorted_subset \<Rightarrow>
                        to_csv fs outfile False sorted_subset
                          (slice header None (Some (- int (length (cond_names a)) - 1))
                           @ [condition @ ''_score'']))))"

subsection \<open>One comparison (lines 262--298)\<close>

text \<open>Lines 263--269: the column of the rounded log2 fold changes.\<close>

definition add_log2fc :: "args \<Rightarrow> table \<Rightarrow> string \<Rightarrow> string \<Rightarrow> py_error + table" where
  "add_log2fc a t cond1 cond2 =
     (let base = cond1 @ ''_'' @ cond2
      in and_then (column t (cond1 @ ''_score'')) (\<lambda>c1.
         and_then (column t (cond2 @ ''_score'')) (\<lambda>c2.
         and_then (for_each num c1) (\<lambda>cond1_values.
         and_then (for_each num c2) (\<lambda>cond2_values.
         and_then (for_each (\<lambda>(x, y). log2_ratio (x + pseudo a) (y + pseudo a))
                     (zip cond1_values cond2_values)) (\<lambda>log2fc.
           round_column (set_column t (base @ ''_log2fc'') (map F log2fc)) (base @ ''_log2fc'')))))))"

text \<open>\<^verbatim>\<open>"_".join([chrom, str(start), str(end)])\<close>: the first item has to be text already.\<close>

definition str_cell :: "libs \<Rightarrow> cell \<Rightarrow> string" where
  "str_cell lib c = (case c of S s \<Rightarrow> s | I i \<Rightarrow> str_int i | F x \<Rightarrow> float_str lib x)"

definition peak_id :: "libs \<Rightarrow> cell \<Rightarrow> cell \<Rightarrow> cell \<Rightarrow> py_error + string" where
  "peak_id lib chrom start stop =
     (case chrom of
        S c \<Rightarrow> Inr (c @ ''_'' @ str_cell lib start @ ''_'' @ str_cell lib stop)
      | _ \<Rightarrow> Inl TypeError)"

text \<open>
  \<^verbatim>\<open>groupby(key)[col].mean()\<close>: one mean for each distinct key, the keys in ascending
  order.
\<close>

definition groupby_mean :: "string list \<Rightarrow> real list \<Rightarrow> py_error + real list" where
  "groupby_mean keys vals =
     for_each (\<lambda>k. np_mean (map snd (filter (\<lambda>(k', v). k' = k) (zip keys vals))))
       (sort (remdups keys))"

text \<open>Lines 271--276: the observed log2 fold changes, one for each peak.\<close>

definition observed_log2fcs :: "libs \<Rightarrow> table \<Rightarrow> string \<Rightarrow> string \<Rightarrow> py_error + real list" where
  "observed_log2fcs lib t cond1 cond2 =
     (let base = cond1 @ ''_'' @ cond2
      in and_then (num_column t (cond1 @ ''_score'')) (\<lambda>s1.
         and_then (num_column t (cond2 @ ''_score'')) (\<lambda>s2.
           let included = map (\<lambda>(x, y). 0 < x \<or> 0 < y) (zip s1 s2);
               subset = t\<lparr>rows := boolean_index (rows t) included\<rparr>
           in and_then (column subset ''peak_chr'') (\<lambda>chroms.
              and_then (column subset ''peak_start'') (\<lambda>starts.
              and_then (column subset ''peak_end'') (\<lambda>ends.
              and_then (for_each (\<lambda>(chrom, start, stop). peak_id lib chrom start stop)
                          (zip chroms (zip starts ends))) (\<lambda>ids.
              and_then (num_column subset (base @ ''_log2fc'')) (\<lambda>fcs.
                groupby_mean ids fcs))))))))"

text \<open>
  Lines 278--298: the fit of the observed values, the change and the p-value. The change
  is stored and then replaced by its rounding (lines 288--289); the value after line 289
  is given here.
\<close>

definition differential :: "libs \<Rightarrow> real list \<Rightarrow> real \<times> real \<Rightarrow> py_error + real \<times> real" where
  "differential lib observed bg_params =
     and_then (norm_fit observed) (\<lambda>obs_params.
       case obs_params of (obs_mean, obs_std) \<Rightarrow>
       case bg_params of (bg_mean, bg_std) \<Rightarrow>
         (let obs_no = min (length observed) 50000
          in if obs_mean \<noteq> bg_mean
             then and_then (np_mean [obs_std, bg_std]) (\<lambda>m.
                    if m = 0 then Inl NonFinite
                    else Inr (round5 ((obs_mean - bg_mean) / m),
                              ttest_ind_from_stats lib obs_mean obs_std obs_no bg_mean bg_std obs_no))
             else Inr (0, 1)))"

definition comparison_step ::
  "libs \<Rightarrow> args \<Rightarrow> (string \<times> string \<rightharpoonup> real \<times> real) \<Rightarrow> table \<times> info_table \<Rightarrow> string \<times> string
     \<Rightarrow> py_error + table \<times> info_table" where
  "comparison_step lib a log2fc_params s comparison =
     (case s of (t, info) \<Rightarrow>
      case comparison of (cond1, cond2) \<Rightarrow>
        (let base = cond1 @ ''_'' @ cond2
         in and_then (add_log2fc a t cond1 cond2) (\<lambda>t'.
            and_then (observed_log2fcs lib t' cond1 cond2) (\<lambda>observed.
              case log2fc_params (cond1, cond2) of
                None \<Rightarrow> Inl KeyError
              | Some bg_params \<Rightarrow>
                  and_then (differential lib observed bg_params) (\<lambda>(change, pval).
                    Inr (t', at_set (at_set info (base @ ''_change'') change)
                               (base @ ''_pvalue'') pval))))))"

subsection \<open>Writing the overview and removing the temporary file (lines 334--358)\<close>

text \<open>
  Lines 339--352: whatever is raised while the spreadsheet is written is caught; the
  handler prints a line and calls \<^verbatim>\<open>sys.exit()\<close>.
\<close>

definition write_excel :: "files \<Rightarrow> string \<Rightarrow> string \<Rightarrow> table \<Rightarrow> string list \<Rightarrow> unit run" where
  "write_excel fs TF_name overview_excel t names =
     (let handler = ([Printed (''Error writing excelfile for TF '' @ TF_name)], Inl SystemExit)
      in case select_columns t names of
           Inl e \<Rightarrow> handler
         | Inr content \<Rightarrow>
             if to_excel_raises fs overview_excel then handler
             else ([WroteExcel overview_excel names content], Inr ()))"

text \<open>Lines 354--358: a removal that raises is logged and the call goes on.\<close>

definition remove_tmp :: "files \<Rightarrow> string \<Rightarrow> unit run" where
  "remove_tmp fs filename =
     (if remove_raises fs filename
      then ([Logged (''Could not remove temporary file '' @ filename
                     @ '' - this does not effect the results of BINDetect.'')], Inr ())
      else ([Removed filename], Inr ()))"

subsection \<open>The whole function (lines 183--360)\<close>

text \<open>
  The figures of lines 259--260 and 300--331 are left out: nothing that is returned or
  written to the tables depends on them.
\<close>

definition process_tfbs ::
  "libs \<Rightarrow> files \<Rightarrow> string \<Rightarrow> args \<Rightarrow> (string \<times> string \<rightharpoonup> real \<times> real) \<Rightarrow> info_table run" where
  "process_tfbs lib fs TF_name a log2fc_params =
     (let bed_outdir = os_path_join (outdir a) [TF_name, ''beds''];
          filename = os_path_join bed_outdir [TF_name @ ''.tmp''];
          info0 = new_info_table a
      in run_then (pure (load_table fs a filename)) (\<lambda>bed_table.
         let header = columns bed_table;
             info1 = at_set info0 ''total_tfbs'' (real (fst (shape bed_table)))
         in run_then (pure (sort_and_format a bed_table)) (\<lambda>sorted_table.
            run_then (to_csv fs (os_path_join bed_outdir [TF_name @ ''_all.bed'']) False sorted_table
                        (filter (\<lambda>col. col \<noteq> ''GC'') header)) (\<lambda>_.
            run_then (pure (bound_split a (sorted_table, info1))) (\<lambda>(split_table, info2).
            run_then (run_each (write_subset fs bed_outdir TF_name a header split_table)
                        (List.product (cond_names a) [''bound'', ''unbound''])) (\<lambda>_.
            run_then (pure (for_loop (comparison_step lib a log2fc_params) (split_table, info2)
                              (comparisons a))) (\<lambda>(final_table, info3).
            let chosen_columns = filter (\<lambda>col. col \<noteq> ''GC'') (columns final_table)
            in run_then (to_csv fs (os_path_join (outdir a) [TF_name, TF_name @ ''_overview.txt''])
                           True final_table chosen_columns) (\<lambda>_.
               run_then (write_excel fs TF_name
                           (os_path_join (outdir a) [TF_name, TF_name @ ''_overview.xlsx''])
                           final_table chosen_columns) (\<lambda>_.
               run_then (remove_tmp fs filename) (\<lambda>_. ([], Inr info3)))))))))))"

section \<open>scan\_and\_score: scanning a subset of the regions\<close>

subsection \<open>Regions, occurrences, collaborators\<close>

text \<open>
  A \<^verbatim>\<open>OneRegion\<close> is a list \<^verbatim>\<open>[chrom, start, end, ...]\<close>; \<open>stop\<close> is its \<^verbatim>\<open>end\<close>. A peak
  region carries its further columns; an occurrence of a motif (TFBS) carries name, score
  and strand, and what the scan appends to it.
\<close>

record interval =
  chrom :: string
  start :: int
  stop :: int

record region = interval +
  extra_columns :: "cell list"

record tfbs = interval +
  name :: string
  score :: real
  strand :: string
  appended :: "cell list"

definition as_list :: "region \<Rightarrow> cell list" where
  "as_list r = [S (chrom r), I (start r), I (stop r)] @ extra_columns r"

text \<open>
  Modelled from the spec: \<^verbatim>\<open>OneRegion.get_length\<close> is defined in
  \<^verbatim>\<open>tobias.utils.regions\<close>; the region model of the specification gives a region of
  \<open>start\<close> and \<open>end\<close> the length \<open>end - start\<close>.
\<close>

definition get_length :: "region \<Rightarrow> int" where
  "get_length r = stop r - start r"

text \<open>
  What \<^verbatim>\<open>scan_and_score\<close> calls and does not define:
  \<^item> \<open>sample seed n k\<close>: \<^verbatim>\<open>random.seed(seed); random.sample(range(n), k)\<close> for \<open>k \<le> n\<close>;
  \<^item> \<open>bw_values condition region\<close>: the values of the condition's track over the region,
    \<open>None\<close> for a value that is not a number; \<open>None\<close> as a whole when the read raises;
  \<^item> \<open>rolling_gc region\<close>: lines 119--130, the GC fraction along the extended region;
  \<^item> \<open>scan_sequence region\<close>: the occurrences the motif scanner finds in the region;
  \<^item> \<open>resolve_overlaps\<close>, \<open>as_bed\<close>, \<open>count_overlaps\<close>: the methods of \<^verbatim>\<open>RegionList\<close>;
  \<^item> \<open>score_format\<close>: \<^verbatim>\<open>"{0:.5f}".format\<close>;
  \<^item> \<open>motif_names\<close>: \<^verbatim>\<open>motifs_obj.names\<close>; \<open>queue_names\<close>: the keys of \<^verbatim>\<open>qs\<close>;
  \<^item> \<open>conditions\<close>: \<^verbatim>\<open>args.cond_names\<close>.
\<close>

record 'o scanner =
  sample :: "int \<Rightarrow> nat \<Rightarrow> nat \<Rightarrow> nat list"
  bw_values :: "string \<Rightarrow> region \<Rightarrow> real option list option"
  rolling_gc :: "region \<Rightarrow> py_error + real list"
  scan_sequence :: "region \<Rightarrow> tfbs list"
  resolve_overlaps :: "tfbs list \<Rightarrow> tfbs list"
  as_bed :: "tfbs list \<Rightarrow> string"
  count_overlaps :: "tfbs list \<Rightarrow> 'o"
  score_format :: "real \<Rightarrow> string"
  motif_names :: "string list"
  queue_names :: "string list"
  conditions :: "string list"

definition gc_window :: int where "gc_window = 500"

definition rand_window :: int where "rand_window = 500"

text \<open>\<^verbatim>\<open>int(a / b)\<close> for a positive \<open>b\<close>: the quotient, truncated towards zero.\<close>

definition int_quotient :: "int \<Rightarrow> int \<Rightarrow> int" where
  "int_quotient a b = (if 0 \<le> a then a div b else - ((- a) div b))"

text \<open>\<^verbatim>\<open>extend = int(np.ceil(gc_window / 2.0))\<close>, the number of base pairs added on each side.\<close>

definition extend_bp :: int where
  "extend_bp = - ((- gc_window) div 2)"

subsection \<open>The random positions of a region (lines 98--101)\<close>

text \<open>\<^verbatim>\<open>random.sample\<close> raises \<open>ValueError\<close> when the sample is larger than the population.\<close>

definition random_sample :: "'o scanner \<Rightarrow> int \<Rightarrow> int \<Rightarrow> int \<Rightarrow> py_error + nat list" where
  "random_sample env seed n k =
     (if k < 0 \<or> max 0 n < k then Inl ValueError
      else Inr (sample env seed (nat n) (nat k)))"

definition sample_size :: "int \<Rightarrow> int" where
  "sample_size reglen = max 1 (int_quotient reglen rand_window)"

definition rand_positions :: "'o scanner \<Rightarrow> region \<Rightarrow> py_error + nat list" where
  "rand_positions env r =
     (let reglen = get_length r in random_sample env reglen reglen (sample_size reglen))"

subsection \<open>The state of the scan\<close>

text \<open>
  \<open>gc\<close> and \<open>signal\<close> are the two entries of \<^verbatim>\<open>background_signal\<close>; \<open>logged\<close> holds the
  region of every \<^verbatim>\<open>logger.error\<close> call.
\<close>

record scan_state =
  gc :: "real list"
  signal :: "string \<rightharpoonup> real list"
  all_TFBS :: "string \<rightharpoonup> tfbs list"
  logged :: "region list"

definition initial_state :: "'o scanner \<Rightarrow> scan_state" where
  "initial_state env =
     \<lparr>gc = [],
      signal = map_of (map (\<lambda>condition. (condition, [])) (conditions env)),
      all_TFBS = map_of (map (\<lambda>TF. (TF, [])) (motif_names env)),
      logged = []\<rparr>"

subsection \<open>One region (lines 93--152)\<close>

definition nan_to_num :: "real option list \<Rightarrow> real list" where
  "nan_to_num vals = map (\<lambda>v. case v of None \<Rightarrow> 0 | Some x \<Rightarrow> x) vals"

text \<open>
  Lines 106--116 for one condition. A read that raises is logged and the condition is left
  without footprints; otherwise the values at the random positions go to the background.
\<close>

definition read_footprints ::
  "'o scanner \<Rightarrow> region \<Rightarrow> nat list \<Rightarrow> (string \<rightharpoonup> real list) \<times> scan_state \<Rightarrow> string
     \<Rightarrow> py_error + (string \<rightharpoonup> real list) \<times> scan_state" where
  "read_footprints env r positions fs condition =
     (case fs of (footprints, s) \<Rightarrow>
        (case bw_values env condition r of
           None \<Rightarrow> Inr (footprints, s\<lparr>logged := logged s @ [r]\<rparr>)
         | Some vals \<Rightarrow>
             (let fp = nan_to_num vals
              in and_then (for_each (\<lambda>pos. item fp (int pos)) positions) (\<lambda>sampled.
                   case signal s condition of
                     None \<Rightarrow> Inl KeyError
                   | Some bg \<Rightarrow>
                       Inr (footprints(condition \<mapsto> fp),
                            s\<lparr>signal := (signal s)(condition \<mapsto> bg @ sampled)\<rparr>)))))"

text \<open>Lines 138--148: the columns appended to one occurrence.\<close>

definition annotate ::
  "'o scanner \<Rightarrow> region \<Rightarrow> real list \<Rightarrow> (string \<rightharpoonup> real list) \<Rightarrow> tfbs \<Rightarrow> py_error + tfbs" where
  "annotate env r gc_values footprints site =
     (let motif_length = stop site - start site;
          pos = start site - start r + int_quotient motif_length 2
      in and_then (item gc_values pos) (\<lambda>g.
         and_then (for_each (\<lambda>bigwig.
                     case footprints bigwig of
                       None \<Rightarrow> Inl KeyError
                     | Some fp \<Rightarrow> and_then (item fp pos) (\<lambda>bigwig_score.
                                    Inr (S (score_format env bigwig_score))))
                   (conditions env)) (\<lambda>scores.
           Inr (site\<lparr>appended := appended site @ as_list r @ [F g] @ scores\<rparr>))))"

text \<open>Line 152: \<^verbatim>\<open>all_TFBS[TFBS.name].append(TFBS)\<close>\<close>

definition collect :: "scan_state \<Rightarrow> tfbs \<Rightarrow> py_error + scan_state" where
  "collect s site =
     (case all_TFBS s (name site) of
        None \<Rightarrow> Inl KeyError
      | Some sites \<Rightarrow> Inr (s\<lparr>all_TFBS := (all_TFBS s)(name site \<mapsto> sites @ [site])\<rparr>))"

definition scan_region :: "'o scanner \<Rightarrow> scan_state \<Rightarrow> region \<Rightarrow> py_error + scan_state" where
  "scan_region env s r =
     and_then (rand_positions env r) (\<lambda>positions.
     and_then (for_loop (read_footprints env r positions) (Map.empty, s) (conditions env))
       (\<lambda>(footprints, s1).
     and_then (rolling_gc env r) (\<lambda>gc_extended.
       let gc_values = slice gc_extended (Some extend_bp) (Some (- extend_bp))
       in and_then (for_each (\<lambda>pos. item gc_values (int pos)) positions) (\<lambda>sampled.
          let s2 = s1\<lparr>gc := gc s1 @ sampled\<rparr>
          in and_then (for_each (annotate env r gc_values footprints) (scan_sequence env r))
               (\<lambda>region_TFBS. for_loop collect s2 region_TFBS)))))"

subsection \<open>After the regions (lines 154--179)\<close>

text \<open>
  Lines 158--167 for one motif name: the occurrences collected over all the regions of
  the call are resolved and sent as one message.
\<close>

definition send_sites ::
  "'o scanner \<Rightarrow> (string \<rightharpoonup> tfbs list) \<Rightarrow> (string \<times> string \<times> string) list \<times> tfbs list \<Rightarrow> string
     \<Rightarrow> py_error + (string \<times> string \<times> string) list \<times> tfbs list" where
  "send_sites env sites_of s TF =
     (case s of (puts, global_TFBS) \<Rightarrow>
        (case sites_of TF of
           None \<Rightarrow> Inl KeyError
         | Some sites \<Rightarrow>
             (let resolved = resolve_overlaps env sites;
                  bed_content = as_bed env resolved
              in if TF \<in> set (queue_names env)
                 then Inr (puts @ [(TF, TF, bed_content)], global_TFBS @ resolved)
                 else Inl KeyError)))"

text \<open>
  The keys of a dict built from a sequence of keys, in the order in which Python iterates
  over them: every key stands where it occurs first.
\<close>

definition dict_keys :: "'a list \<Rightarrow> 'a list" where
  "dict_keys ks = rev (remdups (rev ks))"

text \<open>
  What a call returns, \<open>background_gc\<close>, \<open>background_signal\<close> and \<open>overlap\<close>, and what it
  has done: the messages put on the queues, as (queue, message), and the errors logged.
\<close>

record 'o scan_result =
  background_gc :: "real list"
  background_signal :: "string \<rightharpoonup> real list"
  overlap :: 'o
  puts :: "(string \<times> string \<times> string) list"
  errors :: "region list"

definition scan_and_score :: "'o scanner \<Rightarrow> region list \<Rightarrow> py_error + 'o scan_result" where
  "scan_and_score env regions =
     and_then (for_loop (scan_region env) (initial_state env) regions) (\<lambda>s.
     and_then (for_loop (send_sites env (all_TFBS s)) ([], []) (dict_keys (motif_names env)))
       (\<lambda>(sent, global_TFBS).
         Inr \<lparr>background_gc = gc s, background_signal = signal s,
              overlap = count_overlaps env global_TFBS, puts = sent, errors = logged s\<rparr>))"

section \<open>Notions used to state the properties\<close>

text \<open>A table whose rows all have one cell for each column, as \<open>load_table\<close> returns it.\<close>

definition well_formed :: "table \<Rightarrow> bool" where
  "well_formed t = list_all (\<lambda>r. length r = length (columns t)) (rows t)"

text \<open>
  The occurrences held by a table: chromosome, start and end of each row. The sort of
  line 225 orders them by \<open>occurrence_key\<close>.
\<close>

definition occurrences :: "table \<Rightarrow> py_error + (cell \<times> cell \<times> cell) list" where
  "occurrences t =
     and_then (column t ''TFBS_chr'') (\<lambda>chroms.
     and_then (column t ''TFBS_start'') (\<lambda>starts.
     and_then (column t ''TFBS_end'') (\<lambda>ends. Inr (zip chroms (zip starts ends)))))"

definition occurrence_key :: "cell \<times> cell \<times> cell \<Rightarrow> (nat \<times> real \<times> string) list" where
  "occurrence_key oc = (case oc of (c, s, e) \<Rightarrow> [cell_key c, cell_key s, cell_key e])"

text \<open>
  Modelled from the spec: \<^verbatim>\<open>overlaps\<close> of the region model is defined in
  \<^verbatim>\<open>tobias.utils.regions\<close>; the specification describes it as the intersection test of
  half-open intervals, on the same chromosome.
\<close>

definition overlaps :: "cell \<times> cell \<times> cell \<Rightarrow> cell \<times> cell \<times> cell \<Rightarrow> bool" where
  "overlaps x y =
     (case (x, y) of
        ((c1, I s1, I e1), (c2, I s2, I e2)) \<Rightarrow> c1 = c2 \<and> s1 < e2 \<and> s2 < e1
      | _ \<Rightarrow> False)"

text \<open>The table \<^verbatim>\<open>bed_table\<close> as it stands after line 241, read, sorted and split.\<close>

definition classified_table :: "files \<Rightarrow> args \<Rightarrow> string \<Rightarrow> py_error + table" where
  "classified_table fs a filename =
     and_then (load_table fs a filename) (\<lambda>bed_table.
     and_then (sort_and_format a bed_table) (\<lambda>sorted_table.
     and_then (bound_split a (sorted_table, new_info_table a)) (\<lambda>(split_table, info).
       Inr split_table)))"

text \<open>
  A p-value that does not change when both means change sign, as the one of a two-sided
  test does.
\<close>

definition sign_symmetric :: "(real \<Rightarrow> real \<Rightarrow> nat \<Rightarrow> real \<Rightarrow> real \<Rightarrow> nat \<Rightarrow> real) \<Rightarrow> bool" where
  "sign_symmetric test =
     (\<forall>m1 s1 n1 m2 s2 n2. test (- m1) s1 n1 (- m2) s2 n2 = test m1 s1 n1 m2 s2 n2)"

text \<open>
  Welch's two-sample test from summary statistics, which
  \<^verbatim>\<open>ttest_ind_from_stats(..., equal_var=False)\<close> computes: the statistic, the degrees of
  freedom of Welch and Satterthwaite, and twice the upper tail \<open>sf\<close> of Student's
  distribution at the absolute value of the statistic.
\<close>

definition welch :: "(real \<Rightarrow> real \<Rightarrow> real) \<Rightarrow> real \<Rightarrow> real \<Rightarrow> nat \<Rightarrow> real \<Rightarrow> real \<Rightarrow> nat \<Rightarrow> real" where
  "welch sf mean1 std1 nobs1 mean2 std2 nobs2 =
     (let vn1 = std1\<^sup>2 / real nobs1;
          vn2 = std2\<^sup>2 / real nobs2;
          df = (vn1 + vn2)\<^sup>2 / (vn1\<^sup>2 / (real nobs1 - 1) + vn2\<^sup>2 / (real nobs2 - 1));
          t = (mean1 - mean2) / sqrt (vn1 + vn2)
      in 2 * sf \<bar>t\<bar> df)"

text \<open>
  What \<open>observed_log2fcs\<close> computes, in terms of the table before the column of the
  fold changes \<open>fc\<close> was added to it.
\<close>

definition observed_of ::
  "libs \<Rightarrow> table \<Rightarrow> string \<Rightarrow> string \<Rightarrow> real list \<Rightarrow> py_error + real list" where
  "observed_of lib t A B fc =
     and_then (num_column t (A @ ''_score'')) (\<lambda>xs.
     and_then (num_column t (B @ ''_score'')) (\<lambda>ys.
       let inc = map (\<lambda>(x, y). 0 < x \<or> 0 < y) (zip xs ys)
       in and_then (column t ''peak_chr'') (\<lambda>cs.
          and_then (column t ''peak_start'') (\<lambda>ss.
          and_then (column t ''peak_end'') (\<lambda>es.
          and_then (for_each (\<lambda>(c, s, e). peak_id lib c s e)
                      (boolean_index (zip cs (zip ss es)) inc)) (\<lambda>ids.
            groupby_mean ids (boolean_index fc inc)))))))"

text \<open>The values of the rows whose key is \<open>k\<close>.\<close>

definition group_values :: "string list \<Rightarrow> real list \<Rightarrow> string \<Rightarrow> real list" where
  "group_values keys vals k = map snd (filter (\<lambda>(k', v). k' = k) (zip keys vals))"

section \<open>Examples\<close>

text \<open>
  Library functions for the examples: Welch's test with a simple decreasing tail in
  place of Student's (the statistic alone decides it), and a fixed text for floats.
\<close>

definition example_libs :: libs where
  "example_libs =
     \<lparr>ttest_ind_from_stats = welch (\<lambda>t df. 1 / (2 * (1 + t))), float_str = (\<lambda>x. ''0.0'')\<rparr>"

definition example_header :: "string list" where
  "example_header =
     [''TFBS_chr'', ''TFBS_start'', ''TFBS_end'', ''TFBS_name'', ''TFBS_score'', ''TFBS_strand'',
      ''peak_chr'', ''peak_start'', ''peak_end'', ''GC'', ''WT_score'', ''KO_score'']"

text \<open>
  Four occurrences of a motif in three peaks, with the scores of two conditions; the
  first two lie in the same peak, the last has no signal in either condition.
\<close>

definition example_rows :: "cell list list" where
  "example_rows =
     [[S ''chr1'', I 100, I 110, S ''M'', F 8.5, S ''+'', S ''chr1'', I 50, I 500, F 0.5, F 3, F 1],
      [S ''chr1'', I 200, I 210, S ''M'', F 9, S ''-'', S ''chr1'', I 50, I 500, F 0.4, F 7, F 1],
      [S ''chr2'', I 300, I 310, S ''M'', F 7, S ''+'', S ''chr2'', I 250, I 900, F 0.6, F 1, F 3],
      [S ''chr3'', I 400, I 410, S ''M'', F 7, S ''+'', S ''chr3'', I 10, I 800, F 0.6, F 0, F 0]]"

definition example_table :: table where
  "example_table = \<lparr>columns = example_header, rows = example_rows\<rparr>"

definition example_args :: args where
  "example_args =
     \<lparr>outdir = ''out'', cond_names = [''WT'', ''KO''], comparisons = [(''WT'', ''KO'')],
      peak_header_list = None, thresholds = [''WT'' \<mapsto> 2, ''KO'' \<mapsto> 2], pseudo = 1\<rparr>"

text \<open>The files of the example: the temporary file of motif \<open>M\<close> holds the four occurrences; every write and removal succeeds.\<close>

definition example_files :: files where
  "example_files =
     \<lparr>genfromtxt = (\<lambda>path. if path = ''out/M/beds/M.tmp'' then Inr example_rows else Inl OSError),
      to_csv_raises = (\<lambda>path. None),
      to_excel_raises = (\<lambda>path. False),
      remove_raises = (\<lambda>path. False)\<rparr>"

text \<open>The example table after the bound/unbound split, and after the comparison (WT, KO).\<close>

definition example_split :: table where
  "example_split =
     set_column (set_column example_table ''WT_bound'' [I 1, I 1, I 0, I 0])
       ''KO_bound'' [I 0, I 0, I 1, I 0]"

definition example_final :: table where
  "example_final = set_column example_split ''WT_KO_log2fc'' [F 1, F 2, F (- 1), F 0]"

text \<open>The overview row of the example, for a given change and p-value.\<close>

definition example_info :: "real \<Rightarrow> real \<Rightarrow> info_table" where
  "example_info change pval =
     [(''total_tfbs'', 4), (''WT_mean_score'', 11 / 4), (''WT_bound'', 2),
      (''KO_mean_score'', 5 / 4), (''KO_bound'', 1),
      (''WT_KO_change'', change), (''WT_KO_pvalue'', pval)]"

text \<open>A temporary file with two occurrences of the motif that overlap, the later one first.\<close>

definition overlapping_rows :: "cell list list" where
  "overlapping_rows =
     [[S ''chr1'', I 105, I 115, S ''M'', F 8, S ''+'', S ''chr1'', I 50, I 500, F 0.5, F 3, F 1],
      [S ''chr1'', I 100, I 110, S ''M'', F 9, S ''+'', S ''chr1'', I 50, I 500, F 0.4, F 1, F 1]]"

definition overlapping_files :: files where
  "overlapping_files = example_files\<lparr>genfromtxt := \<lambda>path. Inr overlapping_rows\<rparr>"

section \<open>Notions for the scan\<close>

text \<open>
  Two states of the scan put together, the second after the first: the lists of the
  second are appended to those of the first, key by key.
\<close>

definition append_lists :: "('k \<rightharpoonup> 'v list) \<Rightarrow> ('k \<rightharpoonup> 'v list) \<Rightarrow> ('k \<rightharpoonup> 'v list)" where
  "append_lists m1 m2 = (\<lambda>k. case m1 k of None \<Rightarrow> None | Some xs \<Rightarrow> map_option ((@) xs) (m2 k))"

definition merge :: "scan_state \<Rightarrow> scan_state \<Rightarrow> scan_state" where
  "merge s d =
     \<lparr>gc = gc s @ gc d,
      signal = append_lists (signal s) (signal d),
      all_TFBS = append_lists (all_TFBS s) (all_TFBS d),
      logged = logged s @ logged d\<rparr>"

definition same_keys :: "scan_state \<Rightarrow> scan_state \<Rightarrow> bool" where
  "same_keys s d \<longleftrightarrow> dom (signal s) = dom (signal d) \<and> dom (all_TFBS s) = dom (all_TFBS d)"

text \<open>The list held under a key, none when the key is absent.\<close>

definition values_of :: "('k \<rightharpoonup> 'v list) \<Rightarrow> 'k \<Rightarrow> 'v list" where
  "values_of m condition = (case m condition of None \<Rightarrow> [] | Some xs \<Rightarrow> xs)"

text \<open>
  The footprints of a region after lines 105--116, and the occurrences of a region after
  lines 134--148, with their appended columns.
\<close>

definition footprints_of :: "'o scanner \<Rightarrow> region \<Rightarrow> string \<rightharpoonup> real list" where
  "footprints_of env r =
     (\<lambda>condition. if condition \<in> set (conditions env)
                 then map_option nan_to_num (bw_values env condition r) else None)"

definition region_TFBS :: "'o scanner \<Rightarrow> region \<Rightarrow> py_error + tfbs list" where
  "region_TFBS env r =
     and_then (rolling_gc env r) (\<lambda>gc_extended.
       for_each (annotate env r (slice gc_extended (Some extend_bp) (Some (- extend_bp)))
                   (footprints_of env r))
         (scan_sequence env r))"

definition named :: "string \<Rightarrow> tfbs list \<Rightarrow> tfbs list" where
  "named TF sites = filter (\<lambda>site. name site = TF) sites"

text \<open>
  The emission as the specification words it: for every region and every motif, the
  occurrences of the motif within this region only are resolved, and sent to the channel
  of the motif as one batch.
\<close>

definition batches_per_region ::
  "'o scanner \<Rightarrow> region list \<Rightarrow> py_error + (string \<times> string \<times> string) list" where
  "batches_per_region env regions =
     and_then (for_each (region_TFBS env) regions) (\<lambda>found.
       Inr (concat (map (\<lambda>sites.
              map (\<lambda>TF. (TF, TF, as_bed env (resolve_overlaps env (named TF sites))))
                (dict_keys (motif_names env)))
            found)))"

text \<open>
  Modelled from the spec: \<^verbatim>\<open>RegionList.resolve_overlaps\<close> is defined in
  \<^verbatim>\<open>tobias.utils.regions\<close>; the specification describes it as a sort by coordinate and
  a sweep that, of two overlapping occurrences, retains the one with the higher score,
  and the first in input order when the scores are equal.
\<close>

definition site_overlap :: "tfbs \<Rightarrow> tfbs \<Rightarrow> bool" where
  "site_overlap x y \<longleftrightarrow> chrom x = chrom y \<and> start x < stop y \<and> start y < stop x"

definition keep_best :: "tfbs list \<Rightarrow> tfbs \<Rightarrow> tfbs list" where
  "keep_best kept x =
     (case rev kept of
        [] \<Rightarrow> [x]
      | y # _ \<Rightarrow>
          if site_overlap y x
          then (if score y < score x then butlast kept @ [x] else kept)
          else kept @ [x])"

definition resolve_by_score :: "tfbs list \<Rightarrow> tfbs list" where
  "resolve_by_score sites =
     foldl keep_best [] (sort_key (\<lambda>site. (chrom site, start site, stop site)) sites)"

section \<open>An example of a scan\<close>

definition example_region :: "int \<Rightarrow> int \<Rightarrow> region" where
  "example_region a b = \<lparr>chrom = ''chr1'', start = a, stop = b, extra_columns = []\<rparr>"

definition example_site :: "int \<Rightarrow> int \<Rightarrow> real \<Rightarrow> string \<Rightarrow> tfbs" where
  "example_site a b sc st =
     \<lparr>chrom = ''chr1'', start = a, stop = b, name = ''M'', score = sc, strand = st,
      appended = []\<rparr>"

text \<open>A line of a bed file, here with the coordinates, the name and the strand only.\<close>

definition bed_line :: "tfbs \<Rightarrow> string" where
  "bed_line site =
     chrom site @ [CHR 0x09] @ str_int (start site) @ [CHR 0x09] @ str_int (stop site)
       @ [CHR 0x09] @ name site @ [CHR 0x09] @ strand site @ [CHR 0x0A]"

text \<open>
  Collaborators for the example. The sampler takes the last \<open>k\<close> positions of the range
  in place of the generator's choice. The track of condition \<open>WT\<close> is 1 all along the
  region that starts at 100, and not a number elsewhere; the GC fraction is constant
  along a region. The scanner finds two overlapping occurrences of the motif \<open>M\<close> in the
  region that starts at 100 and one in the region that starts at 300.
\<close>

definition example_scanner :: "unit scanner" where
  "example_scanner =
     \<lparr>sample = (\<lambda>seed n k. map (\<lambda>i. n - 1 - i) [0..<k]),
      bw_values = (\<lambda>condition r.
        Some (replicate (nat (get_length r)) (if start r = 100 then Some 1 else None))),
      rolling_gc = (\<lambda>r.
        Inr (replicate (nat (get_length r + 2 * extend_bp))
               (if start r = 100 then 1 / 2 else 1 / 4))),
      scan_sequence = (\<lambda>r.
        if start r = 100 then [example_site 102 106 8 ''+'', example_site 104 108 9 ''-'']
        else if start r = 300 then [example_site 303 307 7 ''+'']
        else []),
      resolve_overlaps = resolve_by_score,
      as_bed = (\<lambda>sites. concat (map bed_line sites)),
      count_overlaps = (\<lambda>sites. ()),
      score_format = (\<lambda>x. if x = 0 then ''0.00000'' else ''1.00000''),
      motif_names = [''M''],
      queue_names = [''M''],
      conditions = [''WT'']\<rparr>"

definition annotated_site :: "tfbs \<Rightarrow> region \<Rightarrow> real \<Rightarrow> string \<Rightarrow> tfbs" where
  "annotated_site site r g sc = site\<lparr>appended := as_list r @ [F g, S sc]\<rparr>"

text \<open>The occurrences of the two regions of the example, with the columns appended.\<close>

definition example_found_first :: "tfbs list" where
  "example_found_first =
     [annotated_site (example_site 102 106 8 ''+'') (example_region 100 110) (1 / 2) ''1.00000'',
      annotated_site (example_site 104 108 9 ''-'') (example_region 100 110) (1 / 2) ''1.00000'']"

definition example_found_second :: "tfbs list" where
  "example_found_second =
     [annotated_site (example_site 303 307 7 ''+'') (example_region 300 320) (1 / 4) ''0.00000'']"

definition example_bed_first :: string where
  "example_bed_first =
     ''chr1'' @ [CHR 0x09] @ ''104'' @ [CHR 0x09] @ ''108'' @ [CHR 0x09] @ ''M'' @ [CHR 0x09] @ ''-''
       @ [CHR 0x0A]"

definition example_bed_second :: string where
  "example_bed_second =
     ''chr1'' @ [CHR 0x09] @ ''303'' @ [CHR 0x09] @ ''307'' @ [CHR 0x09] @ ''M'' @ [CHR 0x09] @ ''+''
       @ [CHR 0x0A]"

text \<open>What the scan of the two regions in one call returns and sends.\<close>

definition example_result :: "unit scan_result" where
  "example_result =
     \<lparr>background_gc = [1 / 2, 1 / 4], background_signal = [''WT'' \<mapsto> [1, 0]], overlap = (),
      puts = [(''M'', ''M'', example_bed_first @ example_bed_second)], errors = []\<rparr>"

text \<open>The state after the first region alone.\<close>

definition example_state_first :: scan_state where
  "example_state_first =
     \<lparr>gc = [1 / 2], signal = [''WT'' \<mapsto> [1]], all_TFBS = [''M'' \<mapsto> example_found_first],
      logged = []\<rparr>"

section \<open>Notions for the failures of a motif\<close>

text \<open>
  The files of one motif, as \<open>process_tfbs\<close> names them: the temporary file it reads
  (line 191), the tables it writes with \<^verbatim>\<open>to_csv\<close> (lines 231, 246 and 336) and the
  spreadsheet (line 341).
\<close>

definition tmp_file :: "args \<Rightarrow> string \<Rightarrow> string" where
  "tmp_file a TF = os_path_join (os_path_join (outdir a) [TF, ''beds'']) [TF @ ''.tmp'']"

definition table_files :: "args \<Rightarrow> string \<Rightarrow> string list" where
  "table_files a TF =
     [os_path_join (os_path_join (outdir a) [TF, ''beds'']) [TF @ ''_all.bed'']]
     @ map (\<lambda>(condition, state).
              os_path_join (os_path_join (outdir a) [TF, ''beds''])
                [TF @ ''_'' @ condition @ ''_'' @ state @ ''.bed''])
         (List.product (cond_names a) [''bound'', ''unbound''])
     @ [os_path_join (outdir a) [TF, TF @ ''_overview.txt'']]"

definition excel_file :: "args \<Rightarrow> string \<Rightarrow> string" where
  "excel_file a TF = os_path_join (outdir a) [TF, TF @ ''_overview.xlsx'']"

text \<open>
  Modelled from the spec: the code that runs \<^verbatim>\<open>process_tfbs\<close> for the motifs is in
  \<^verbatim>\<open>BINDetect.py\<close>, which is not among the sources; the specification has one statistics
  task for each motif and, for a task that fails, has the error logged, the row of that
  motif skipped, and the remaining motifs processed. \<open>reported\<close> holds the motifs whose
  task failed, each with its exception, \<open>overview\<close> the rows returned, \<open>effects\<close> what the
  tasks wrote, printed and logged.
\<close>

record stage =
  reported :: "(string \<times> py_error) list"
  overview :: "(string \<times> info_table) list"
  effects :: "event list"

fun statistics_stage ::
  "libs \<Rightarrow> files \<Rightarrow> args \<Rightarrow> (string \<times> string \<rightharpoonup> real \<times> real) \<Rightarrow> string list \<Rightarrow> stage" where
  "statistics_stage lib fs a params [] = \<lparr>reported = [], overview = [], effects = []\<rparr>"
| "statistics_stage lib fs a params (TF # TFs) =
     (let rest = statistics_stage lib fs a params TFs
      in case process_tfbs lib fs TF a params of
           (evs, Inl e) \<Rightarrow>
             rest\<lparr>reported := (TF, e) # reported rest, effects := evs @ effects rest\<rparr>
         | (evs, Inr info) \<Rightarrow>
             rest\<lparr>overview := (TF, info) # overview rest, effects := evs @ effects rest\<rparr>)"

text \<open>The row of a task that returns, none for a task that raises.\<close>

definition returned_row :: "string \<Rightarrow> info_table run \<Rightarrow> (string \<times> info_table) list" where
  "returned_row TF task = (case snd task of Inl e \<Rightarrow> [] | Inr info \<Rightarrow> [(TF, info)])"

text \<open>Two files for the examples: no temporary file for a motif \<open>N\<close>; the overview of \<open>M\<close> cannot be written.\<close>

definition overview_fails :: files where
  "overview_fails =
     example_files\<lparr>to_csv_raises :=
       (\<lambda>path. if path = ''out/M/M_overview.txt'' then Some OSError else None)\<rparr>"

section \<open>Notions for the background sample\<close>

text \<open>
  What lines 115--116 and line 132 take from one region: the values of the track of a
  condition at the random positions, none when the track cannot be read, and the GC
  values at the random positions. A condition named several times in
  \<^verbatim>\<open>args.cond_names\<close> gets its values once for each time.
\<close>

definition sampled_signal :: "'o scanner \<Rightarrow> region \<Rightarrow> nat list \<Rightarrow> string \<Rightarrow> py_error + real list" where
  "sampled_signal env r positions condition =
     (case bw_values env condition r of
        None \<Rightarrow> Inr []
      | Some vals \<Rightarrow> for_each (\<lambda>pos. item (nan_to_num vals) (int pos)) positions)"

definition gc_block :: "'o scanner \<Rightarrow> region \<Rightarrow> py_error + real list" where
  "gc_block env r =
     and_then (rand_positions env r) (\<lambda>positions.
     and_then (rolling_gc env r) (\<lambda>gc_extended.
       for_each (\<lambda>pos. item (slice gc_extended (Some extend_bp) (Some (- extend_bp))) (int pos))
         positions))"

definition signal_block :: "'o scanner \<Rightarrow> string \<Rightarrow> region \<Rightarrow> py_error + real list" where
  "signal_block env condition r =
     and_then (rand_positions env r) (\<lambda>positions.
     and_then (sampled_signal env r positions condition) (\<lambda>sampled.
       Inr (concat (replicate (count_list (conditions env) condition) sampled))))"

definition block_gc :: "'o scanner \<Rightarrow> region \<Rightarrow> real list" where
  "block_gc env r = (case gc_block env r of Inl e \<Rightarrow> [] | Inr g \<Rightarrow> g)"

definition block_signal :: "'o scanner \<Rightarrow> string \<Rightarrow> region \<Rightarrow> real list" where
  "block_signal env condition r = (case signal_block env condition r of Inl e \<Rightarrow> [] | Inr b \<Rightarrow> b)"

text \<open>
  The background sample as a collection of rows, one row for each sampled position: the
  GC value at the position and, condition by condition, the signal value at the same
  position. \<open>joint_rows\<close> reads the rows off the GC values and the lists of the
  conditions, which stand side by side; \<open>background_sample\<close> collects the rows of the
  results of several calls, one call for each chunk of regions, each row as often as it
  was sampled and in no order.
\<close>

definition joint_rows :: "string list \<Rightarrow> real list \<Rightarrow> (string \<Rightarrow> real list) \<Rightarrow> (real \<times> real list) list" where
  "joint_rows cs g f = map (\<lambda>i. (g ! i, map (\<lambda>c. f c ! i) cs)) [0..<length g]"

definition sample_rows :: "string list \<Rightarrow> 'o scan_result \<Rightarrow> (real \<times> real list) list" where
  "sample_rows cs out = joint_rows cs (background_gc out) (values_of (background_signal out))"

definition background_sample :: "string list \<Rightarrow> 'o scan_result list \<Rightarrow> (real \<times> real list) multiset" where
  "background_sample cs results = (\<Sum>out\<leftarrow>results. mset (sample_rows cs out))"

definition region_rows :: "'o scanner \<Rightarrow> region \<Rightarrow> (real \<times> real list) list" where
  "region_rows env r =
     joint_rows (conditions env) (block_gc env r) (\<lambda>condition. block_signal env condition r)"

section \<open>Basic facts about sequencing and tables\<close>

lemma and_then_Inr [simp]: "and_then (Inr x) f = f x"
  by (simp add: and_then_def)

lemma and_then_Inl [simp]: "and_then (Inl e) f = Inl e"
  by (simp add: and_then_def)

lemma and_then_eq_Inr: "and_then m f = Inr y \<longleftrightarrow> (\<exists>x. m = Inr x \<and> f x = Inr y)"
  by (cases m) simp_all

lemma for_each_total: "for_each (\<lambda>x. Inr (g x)) xs = Inr (map g xs)"
  by (induction xs) simp_all

lemma for_each_Cons_eq_Inr:
  "for_each f (x # xs) = Inr zs \<longleftrightarrow> (\<exists>y ys. zs = y # ys \<and> f x = Inr y \<and> for_each f xs = Inr ys)"
  by (auto split: sum.splits)

lemma for_each_eq_Inr: "for_each f xs = Inr ys \<longleftrightarrow> list_all2 (\<lambda>x y. f x = Inr y) xs ys"
proof (induction xs arbitrary: ys)
  case Nil
  then show ?case by auto
next
  case (Cons x xs)
  show ?case
    unfolding for_each_Cons_eq_Inr list_all2_Cons1 Cons.IH by auto
qed

lemma for_each_length: "for_each f xs = Inr ys \<Longrightarrow> length ys = length xs"
  by (simp add: for_each_eq_Inr list_all2_lengthD)

lemma for_each_map: "for_each f (map g xs) = for_each (\<lambda>x. f (g x)) xs"
  by (induction xs) (simp_all split: sum.splits)

lemma for_each_boolean_index:
  "for_each f xs = Inr ys \<Longrightarrow>
   for_each f (boolean_index xs bs) = Inr (boolean_index ys bs)"
  unfolding boolean_index_def
proof (induction xs arbitrary: ys bs)
  case Nil
  then show ?case by simp
next
  case (Cons x xs)
  then obtain y ys' where ys: "ys = y # ys'" "f x = Inr y" "for_each f xs = Inr ys'"
    by (auto split: sum.splits)
  show ?case
  proof (cases bs)
    case Nil
    then show ?thesis by simp
  next
    case (Cons b bs')
    then show ?thesis using ys Cons.IH[OF ys(3), of bs'] by simp
  qed
qed

lemma get_loc_eq_Inr: "get_loc h n = Inr i \<longleftrightarrow> n \<in> set h \<and> i = length (takeWhile (\<lambda>x. x \<noteq> n) h)"
  by (auto simp: get_loc_def)

lemma first_index_less: "n \<in> set h \<Longrightarrow> length (takeWhile (\<lambda>x. x \<noteq> n) h) < length h"
  by (induction h) auto

lemma first_index_nth: "n \<in> set h \<Longrightarrow> h ! length (takeWhile (\<lambda>x. x \<noteq> n) h) = n"
  by (induction h) auto

lemma get_loc_less: "get_loc h n = Inr i \<Longrightarrow> i < length h \<and> h ! i = n"
  by (auto simp: get_loc_def first_index_less first_index_nth split: if_splits)

lemma get_loc_append: "n \<in> set h \<Longrightarrow> get_loc (h @ [m]) n = get_loc h n"
  by (simp add: get_loc_def takeWhile_append1) 

lemma get_loc_new: "n \<notin> set h \<Longrightarrow> get_loc (h @ [n]) n = Inr (length h)"
  by (induction h) (auto simp: get_loc_def)

lemma get_loc_append_other: "n \<notin> set h \<Longrightarrow> m \<noteq> n \<Longrightarrow> get_loc (h @ [m]) n = Inl KeyError"
  by (simp add: get_loc_def)

lemma length_rows_set_column:
  "length vs = length (rows t) \<Longrightarrow> length (rows (set_column t n vs)) = length (rows t)"
  by (simp add: set_column_def Let_def)

lemma columns_set_column:
  "columns (set_column t n vs) = (if n \<in> set (columns t) then columns t else columns t @ [n])"
  by (simp add: set_column_def Let_def)

lemma well_formed_set_column:
  "well_formed t \<Longrightarrow> well_formed (set_column t n vs)"
  by (auto simp: well_formed_def set_column_def Let_def list_all_iff dest!: set_zip_leftD)

lemma map2_nth_update_same:
  "length rs = length vs \<Longrightarrow> \<forall>r\<in>set rs. i < length r \<Longrightarrow>
   map (\<lambda>r. r ! i) (map2 (\<lambda>r v. r[i := v]) rs vs) = vs"
  by (induction rs vs rule: list_induct2) auto

lemma map2_nth_update_other:
  "length rs = length vs \<Longrightarrow> j \<noteq> i \<Longrightarrow>
   map (\<lambda>r. r ! j) (map2 (\<lambda>r v. r[i := v]) rs vs) = map (\<lambda>r. r ! j) rs"
  by (induction rs vs rule: list_induct2) auto

lemma map2_nth_append_same:
  "length rs = length vs \<Longrightarrow> \<forall>r\<in>set rs. length r = k \<Longrightarrow>
   map (\<lambda>r. r ! k) (map2 (\<lambda>r v. r @ [v]) rs vs) = vs"
  by (induction rs vs rule: list_induct2) auto

lemma map2_nth_append_other:
  "length rs = length vs \<Longrightarrow> \<forall>r\<in>set rs. j < length r \<Longrightarrow>
   map (\<lambda>r. r ! j) (map2 (\<lambda>r v. r @ [v]) rs vs) = map (\<lambda>r. r ! j) rs"
  by (induction rs vs rule: list_induct2) (auto simp: nth_append)

lemma column_set_column_same:
  assumes "well_formed t" and "length vs = length (rows t)"
  shows "column (set_column t n vs) n = Inr vs"
proof (cases "n \<in> set (columns t)")
  case True
  then obtain i where i: "get_loc (columns t) n = Inr i" by (simp add: get_loc_def)
  have "\<forall>r\<in>set (rows t). i < length r"
    using assms(1) get_loc_less[OF i] by (simp add: well_formed_def list_all_iff)
  then show ?thesis
    using True i assms(2)
    by (simp add: column_def set_column_def Let_def get_loc_def map2_nth_update_same del: map_map)
next
  case False
  have "\<forall>r\<in>set (rows t). length r = length (columns t)"
    using assms(1) by (simp add: well_formed_def list_all_iff)
  then show ?thesis
    using False assms(2)
    by (simp add: column_def set_column_def get_loc_new map2_nth_append_same del: map_map)
qed

lemma column_set_column_other:
  assumes "well_formed t" and "length vs = length (rows t)" and "m \<noteq> n"
  shows "column (set_column t n vs) m = column t m"
proof (cases "n \<in> set (columns t)")
  case True
  show ?thesis
  proof (cases "m \<in> set (columns t)")
    case m: True
    have "length (takeWhile (\<lambda>x. x \<noteq> m) (columns t)) \<noteq> length (takeWhile (\<lambda>x. x \<noteq> n) (columns t))"
      using first_index_nth[OF True] first_index_nth[OF m] assms(3) by metis
    then show ?thesis
      using True m assms(2)
      by (simp add: column_def set_column_def Let_def get_loc_def map2_nth_update_other del: map_map)
  next
    case False
    then show ?thesis using True by (simp add: column_def set_column_def Let_def get_loc_def)
  qed
next
  case False
  show ?thesis
  proof (cases "m \<in> set (columns t)")
    case m: True
    then obtain j where j: "get_loc (columns t) m = Inr j" by (simp add: get_loc_def)
    have "\<forall>r\<in>set (rows t). j < length r"
      using assms(1) get_loc_less[OF j] by (simp add: well_formed_def list_all_iff)
    then show ?thesis
      using False m j assms(2)
      by (simp add: column_def set_column_def get_loc_append map2_nth_append_other del: map_map)
  next
    case m: False
    then show ?thesis
      using False assms(3) by (simp add: column_def set_column_def get_loc_def)
  qed
qed

section \<open>The default column names\<close>

lemma length_peak_columns: "length (peak_columns m) = max 3 m"
  by (auto simp: peak_columns_def)

lemma take_peak_columns:
  assumes "3 \<le> p" and "p \<le> m"
  shows "take p (peak_columns m) = peak_columns p"
proof -
  obtain k where p: "p = Suc (Suc (Suc k))" using assms(1)
    by (metis add_Suc_right le_Suc_ex numeral_3_eq_3 plus_nat.add_0 add.commute)
  obtain j where m: "m = Suc (Suc (Suc (k + j)))" using assms(2) p
    by (metis add_Suc le_Suc_ex)
  show ?thesis
    by (simp add: p m peak_columns_def take_map min_def)
qed

lemma peak_columns_Suc:
  assumes "3 \<le> p"
  shows "peak_columns (Suc p) = peak_columns p @ [''additional_'' @ str_nat (p - 2)]"
proof -
  obtain k where p: "p = 3 + k" using assms(1) by (metis le_Suc_ex)
  show ?thesis by (simp add: p peak_columns_def nat_add_distrib)
qed

text \<open>
  C10. Without a peak header (\<^verbatim>\<open>args.peak_header_list\<close> is \<^verbatim>\<open>None\<close>), a table in the
  format the scan writes -- six TFBS columns, \<open>p\<close> peak columns of which the first three
  are the peak's chromosome, start and end, the GC column, and one score column for each
  of the conditions, of which there is at least one -- gets the header
  \<open>TFBS_chr, TFBS_start, TFBS_end, TFBS_name, TFBS_score, TFBS_strand\<close>, then
  \<open>peak_chr, peak_start, peak_end, additional_1, ..., additional_(p-3)\<close>, then \<open>GC\<close>,
  then \<open><condition>_score\<close> for the conditions in their order.
\<close>

theorem default_header_names:
  assumes "conds \<noteq> []" and "3 \<le> p" and "no_cols = 6 + p + 1 + length conds"
  shows "make_header no_cols None conds =
           Inr (tfbs_columns @ peak_columns p @ [''GC''] @ score_columns conds)"
proof -
  let ?n = "length conds"
  have n: "0 < ?n" using assms(1) by simp
  have l6: "length tfbs_columns = 6" by (simp add: tfbs_columns_def)
  have ls: "length (score_columns conds) = ?n" by (simp add: score_columns_def)
  have h1: "slice_assign (replicate no_cols '''') None (Some 6) tfbs_columns
              = tfbs_columns @ replicate (p + 1 + ?n) ''''"
    using assms by (simp add: slice_assign_def slice_bound_def Let_def)
  have npc: "length (slice (tfbs_columns @ replicate (p + 1 + ?n) [] :: string list) (Some 6) None)
               = p + 1 + ?n"
    by (simp add: slice_def slice_bound_def l6 Let_def)
  have h2: "slice_assign (tfbs_columns @ replicate (p + 1 + ?n) '''') (Some 6)
               (Some (6 + int (p + 1 + ?n))) (peak_columns (p + 1 + ?n))
              = tfbs_columns @ peak_columns (p + 1 + ?n)"
    by (simp add: slice_assign_def slice_bound_def l6 Let_def)
  have lp: "length (peak_columns (p + 1 + ?n)) = p + 1 + ?n"
    using assms(2) by (simp add: length_peak_columns)
  have lo: "slice_bound (length (tfbs_columns @ peak_columns (p + 1 + ?n))) (- int ?n) = 6 + (p + 1)"
    using n lp by (simp add: slice_bound_def l6)
  have h3: "slice_assign (tfbs_columns @ peak_columns (p + 1 + ?n)) (Some (- int ?n)) None
               (score_columns conds)
              = tfbs_columns @ peak_columns (p + 1) @ score_columns conds"
    unfolding slice_assign_def Let_def option.case lo
    using assms(2) by (simp add: l6 lp take_peak_columns)
  have lp1: "length (peak_columns p) = p"
    using assms(2) by (simp add: length_peak_columns)
  have h4: "set_item (tfbs_columns @ peak_columns (p + 1) @ score_columns conds) (- int ?n - 1) ''GC''
              = Inr (tfbs_columns @ peak_columns p @ [''GC''] @ score_columns conds)"
    using assms(2)
    by (simp add: set_item_def position_def l6 ls lp1 peak_columns_Suc list_update_append nat_add_distrib)
  show ?thesis
    unfolding make_header_def Let_def h1 option.case npc h2 h3 h4
    using assms by (simp add: l6 lp1 ls)
qed

theorem default_header_names_witness:
  "make_header 14 None [''WT'', ''KO''] =
     Inr [''TFBS_chr'', ''TFBS_start'', ''TFBS_end'', ''TFBS_name'', ''TFBS_score'', ''TFBS_strand'',
          ''peak_chr'', ''peak_start'', ''peak_end'', ''additional_1'', ''additional_2'',
          ''GC'', ''WT_score'', ''KO_score'']"
proof -
  have "make_header 14 None [''WT'', ''KO''] =
          Inr (tfbs_columns @ peak_columns 5 @ [''GC''] @ score_columns [''WT'', ''KO''])"
    by (rule default_header_names) simp_all
  moreover have "tfbs_columns @ peak_columns 5 @ [''GC''] @ score_columns [''WT'', ''KO''] =
     [''TFBS_chr'', ''TFBS_start'', ''TFBS_end'', ''TFBS_name'', ''TFBS_score'', ''TFBS_strand'',
      ''peak_chr'', ''peak_start'', ''peak_end'', ''additional_1'', ''additional_2'',
      ''GC'', ''WT_score'', ''KO_score'']"
    by code_simp
  ultimately show ?thesis by simp
qed

section \<open>The overview row\<close>

lemma map_of_replace:
  "map_of (map (\<lambda>(c, x). if c = col then (c, v) else (c, x)) info) k =
     (if k = col then (if col \<in> fst ` set info then Some v else None) else map_of info k)"
  by (induction info) (auto simp: rev_image_eqI)

lemma map_of_at_set_same: "map_of (at_set info col v) col = Some v"
  unfolding at_set_def
  by (force simp: map_of_replace map_add_def split: option.splits dest!: map_of_SomeD)

lemma map_of_at_set_other: "k \<noteq> col \<Longrightarrow> map_of (at_set info col v) k = map_of info k"
  unfolding at_set_def
  by (auto simp: map_of_replace map_add_def split: option.splits)

section \<open>Change and p-value of one comparison\<close>

lemma differential_eq:
  assumes "norm_fit observed = Inr (obs_mean, obs_std)"
    and "obs_mean \<noteq> bg_mean \<longrightarrow> obs_std + bg_std \<noteq> 0"
  shows "differential lib observed (bg_mean, bg_std) =
           Inr (if obs_mean = bg_mean then (0, 1)
                else (round5 ((obs_mean - bg_mean) / ((obs_std + bg_std) / 2)),
                      ttest_ind_from_stats lib obs_mean obs_std (min (length observed) 50000)
                        bg_mean bg_std (min (length observed) 50000)))"
  using assms by (auto simp: differential_def np_mean_def Let_def)

lemma comparison_step_eq:
  assumes "add_log2fc a t A B = Inr t1"
    and "observed_log2fcs lib t1 A B = Inr observed"
    and "params (A, B) = Some bg"
    and "differential lib observed bg = Inr (change, pval)"
  shows "comparison_step lib a params (t, info) (A, B) =
           Inr (t1, at_set (at_set info (A @ ''_'' @ B @ ''_change'') change)
                      (A @ ''_'' @ B @ ''_pvalue'') pval)"
  using assms by (simp add: comparison_step_def Let_def)

text \<open>
  C2. For a comparison (A, B) whose fold changes are finite: when the observed mean
  equals the background mean, the change is 0 and the p-value is 1; otherwise the change
  is (observed mean - background mean) / mean(observed std, background std) rounded to
  five decimals (line 289).
\<close>

theorem reported_change:
  assumes "add_log2fc a t A B = Inr t1"
    and "observed_log2fcs lib t1 A B = Inr observed"
    and "norm_fit observed = Inr (obs_mean, obs_std)"
    and "params (A, B) = Some (bg_mean, bg_std)"
    and "obs_mean \<noteq> bg_mean \<longrightarrow> obs_std + bg_std \<noteq> 0"
  shows "\<exists>info'. comparison_step lib a params (t, info) (A, B) = Inr (t1, info') \<and>
           map_of info' (A @ ''_'' @ B @ ''_change'') =
             Some (if obs_mean = bg_mean then 0
                   else round5 ((obs_mean - bg_mean) / ((obs_std + bg_std) / 2))) \<and>
           (obs_mean = bg_mean \<longrightarrow> map_of info' (A @ ''_'' @ B @ ''_pvalue'') = Some 1)"
  using comparison_step_eq[where params = params and info = info, OF assms(1,2,4)]
    differential_eq[OF assms(3,5), of lib]
  by (auto simp: map_of_at_set_same map_of_at_set_other)

text \<open>
  C8. For a comparison with unequal observed and background means, the p-value is the
  one of \<^verbatim>\<open>ttest_ind_from_stats\<close> on the observed and the background mean and standard
  deviation, with both sample sizes equal to the number of observed values capped at
  50000.
\<close>

theorem pvalue_from_stats:
  assumes "add_log2fc a t A B = Inr t1"
    and "observed_log2fcs lib t1 A B = Inr observed"
    and "norm_fit observed = Inr (obs_mean, obs_std)"
    and "params (A, B) = Some (bg_mean, bg_std)"
    and "obs_mean \<noteq> bg_mean" and "obs_std + bg_std \<noteq> 0"
  shows "\<exists>info' obs_no. comparison_step lib a params (t, info) (A, B) = Inr (t1, info') \<and>
           obs_no = min (length observed) 50000 \<and> obs_no \<le> 50000 \<and>
           map_of info' (A @ ''_'' @ B @ ''_pvalue'') =
             Some (ttest_ind_from_stats lib obs_mean obs_std obs_no bg_mean bg_std obs_no)"
proof -
  have d: "obs_mean \<noteq> bg_mean \<longrightarrow> obs_std + bg_std \<noteq> 0" using assms(6) by simp
  show ?thesis
    using comparison_step_eq[where params = params and info = info, OF assms(1,2,4)]
      differential_eq[OF assms(3) d, of lib] assms(5)
    by (auto simp: map_of_at_set_same)
qed

section \<open>The example\<close>

lemma log2_4: "log 2 4 = 2"
proof -
  have "log 2 (2 ^ 2) = 2" by (simp only: log_pow_cancel)
  then show ?thesis by simp
qed

lemma log2_half: "log 2 (1 / 2) = - 1"
  by (simp add: log_divide)

lemma round5_examples:
  "round5 1 = 1" "round5 2 = 2" "round5 (- 1) = - 1" "round5 0 = 0"
  "round5 (1 / 3) = 33333 / 100000" "round5 (- (5 / 3)) = - (166667 / 100000)"
  by (simp_all add: round5_def rint_def Let_def)

lemma example_add_log2fc:
  "add_log2fc example_args example_table ''WT'' ''KO'' =
     Inr (set_column example_table ''WT_KO_log2fc'' [F 1, F 2, F (- 1), F 0])"
  by (simp add: add_log2fc_def example_args_def example_table_def example_header_def
      example_rows_def column_def get_loc_def num_def log2_ratio_def set_column_def
      round_column_def round_cell_def log2_4 log2_half round5_examples)

lemma example_order: "sort [''chr1_50_500'', ''chr2_250_900''] = [''chr1_50_500'', ''chr2_250_900'']"
  by code_simp

lemma example_str: "str_int 50 = ''50''" "str_int 500 = ''500''" "str_int 250 = ''250''" "str_int 900 = ''900''"
  by code_simp+

lemma example_observed:
  "observed_log2fcs lib (set_column example_table ''WT_KO_log2fc'' [F 1, F 2, F (- 1), F 0])
     ''WT'' ''KO'' = Inr [3 / 2, - 1]"
  by (simp add: observed_log2fcs_def example_table_def example_header_def
      example_rows_def column_def num_column_def get_loc_def num_def set_column_def
      peak_id_def str_cell_def groupby_mean_def np_mean_def example_order example_str
      boolean_index_def)

lemma example_fit: "norm_fit [3 / 2, - 1] = Inr (1 / 4, 5 / 4)"
proof -
  have "sqrt (25 / 16) = 5 / 4"
    by (rule real_sqrt_unique) (simp_all add: power2_eq_square)
  then show ?thesis
    by (simp add: norm_fit_def power2_eq_square)
qed

theorem reported_change_witness:
  "(\<exists>info'. comparison_step example_libs example_args [(''WT'', ''KO'') \<mapsto> (0, 1 / 4)]
               (example_table, new_info_table example_args) (''WT'', ''KO'')
             = Inr (set_column example_table ''WT_KO_log2fc'' [F 1, F 2, F (- 1), F 0], info') \<and>
            map_of info' ''WT_KO_change'' = Some (33333 / 100000))
   \<and> (\<exists>info'. comparison_step example_libs example_args [(''WT'', ''KO'') \<mapsto> (1 / 4, 1)]
               (example_table, new_info_table example_args) (''WT'', ''KO'')
             = Inr (set_column example_table ''WT_KO_log2fc'' [F 1, F 2, F (- 1), F 0], info') \<and>
            map_of info' ''WT_KO_change'' = Some 0 \<and> map_of info' ''WT_KO_pvalue'' = Some 1)"
proof -
  have p1: "[(''WT'', ''KO'') \<mapsto> (0, 1 / 4 :: real)] (''WT'', ''KO'') = Some (0, 1 / 4)" by simp
  have p2: "[(''WT'', ''KO'') \<mapsto> (1 / 4, 1 :: real)] (''WT'', ''KO'') = Some (1 / 4, 1)" by simp
  have d1: "(1 / 4 :: real) \<noteq> 0 \<longrightarrow> (5 / 4 :: real) + 1 / 4 \<noteq> 0" by simp
  have d2: "(1 / 4 :: real) \<noteq> 1 / 4 \<longrightarrow> (5 / 4 :: real) + 1 \<noteq> 0" by simp
  show ?thesis
    using reported_change[where params = "[(''WT'', ''KO'') \<mapsto> (0, 1 / 4)]"
          and lib = example_libs and info = "new_info_table example_args",
          OF example_add_log2fc example_observed example_fit p1 d1]
      reported_change[where params = "[(''WT'', ''KO'') \<mapsto> (1 / 4, 1)]"
          and lib = example_libs and info = "new_info_table example_args",
          OF example_add_log2fc example_observed example_fit p2 d2]
    by (simp add: round5_examples)
qed

theorem reported_change_counterexample:
  "map_sum id (\<lambda>(t, info). map_of info ''WT_KO_change'')
     (comparison_step example_libs example_args [(''WT'', ''KO'') \<mapsto> (0, 1 / 4)]
        (example_table, new_info_table example_args) (''WT'', ''KO''))
     = Inr (Some (33333 / 100000))
   \<and> and_then (and_then (add_log2fc example_args example_table ''WT'' ''KO'')
                   (\<lambda>t1. observed_log2fcs example_libs t1 ''WT'' ''KO'')) norm_fit
       = Inr (1 / 4, 5 / 4)
   \<and> (33333 / 100000 :: real) \<noteq> (1 / 4 - 0) / ((5 / 4 + 1 / 4) / 2)"
proof -
  have p1: "[(''WT'', ''KO'') \<mapsto> (0, 1 / 4 :: real)] (''WT'', ''KO'') = Some (0, 1 / 4)" by simp
  have d1: "(1 / 4 :: real) \<noteq> 0 \<longrightarrow> (5 / 4 :: real) + 1 / 4 \<noteq> 0" by simp
  have d: "differential example_libs [3 / 2, - 1] (0, 1 / 4) =
             Inr (33333 / 100000, ttest_ind_from_stats example_libs (1 / 4) (5 / 4) 2 0 (1 / 4) 2)"
    using differential_eq[OF example_fit d1, of example_libs]
    by (simp add: round5_examples numeral_2_eq_2)
  show ?thesis
    using comparison_step_eq[where params = "[(''WT'', ''KO'') \<mapsto> (0, 1 / 4)]"
        and info = "new_info_table example_args", OF example_add_log2fc example_observed p1 d]
    by (simp add: example_add_log2fc example_observed example_fit map_of_at_set_same
        map_of_at_set_other)
qed

theorem pvalue_from_stats_witness:
  "\<exists>info'. comparison_step example_libs example_args [(''WT'', ''KO'') \<mapsto> (0, 1 / 4)]
               (example_table, new_info_table example_args) (''WT'', ''KO'')
             = Inr (set_column example_table ''WT_KO_log2fc'' [F 1, F 2, F (- 1), F 0], info') \<and>
            map_of info' ''WT_KO_pvalue'' =
              Some (ttest_ind_from_stats example_libs (1 / 4) (5 / 4) 2 0 (1 / 4) 2)"
proof -
  have p1: "[(''WT'', ''KO'') \<mapsto> (0, 1 / 4 :: real)] (''WT'', ''KO'') = Some (0, 1 / 4)" by simp
  show ?thesis
    using pvalue_from_stats[where params = "[(''WT'', ''KO'') \<mapsto> (0, 1 / 4)]"
          and lib = example_libs and info = "new_info_table example_args",
          OF example_add_log2fc example_observed example_fit p1]
    by (simp add: numeral_2_eq_2)
qed

section \<open>Rounding is odd\<close>

lemma rint_minus: "rint (- x) = - rint x"
proof (cases "x = of_int \<lfloor>x\<rfloor>")
  case True
  then obtain k :: int where k: "x = of_int k" by metis
  show ?thesis by (simp add: k rint_def flip: of_int_minus)
next
  case False
  then have c: "\<lceil>x\<rceil> = \<lfloor>x\<rfloor> + 1"
    by (metis ceiling_altdef)
  have f: "\<lfloor>- x\<rfloor> = - \<lfloor>x\<rfloor> - 1"
    using c by (simp add: floor_minus)
  have d: "0 < x - of_int \<lfloor>x\<rfloor>" using False
    by (metis diff_gt_0_iff_gt of_int_floor_le order_le_less)
  show ?thesis
    unfolding rint_def Let_def f using d by auto
qed

lemma round5_minus: "round5 (- x) = - round5 x"
  by (simp add: round5_def rint_minus flip: minus_mult_left)

section \<open>The log2 fold changes of a comparison\<close>

lemma log2fc_not_score: "A @ ''_'' @ B @ ''_log2fc'' \<noteq> X @ ''_score''"
proof
  assume "A @ ''_'' @ B @ ''_log2fc'' = X @ ''_score''"
  then have "last (A @ ''_'' @ B @ ''_log2fc'') = last (X @ ''_score'')" by simp
  then show False by simp
qed

lemma log2fc_not_peak:
  "A @ ''_'' @ B @ ''_log2fc'' \<noteq> ''peak_chr''"
  "A @ ''_'' @ B @ ''_log2fc'' \<noteq> ''peak_start''"
  "A @ ''_'' @ B @ ''_log2fc'' \<noteq> ''peak_end''"
proof -
  have l: "last (A @ ''_'' @ B @ ''_log2fc'') = CHR ''c''" by simp
  show "A @ ''_'' @ B @ ''_log2fc'' \<noteq> ''peak_chr''" using l by force
  show "A @ ''_'' @ B @ ''_log2fc'' \<noteq> ''peak_start''" using l by force
  show "A @ ''_'' @ B @ ''_log2fc'' \<noteq> ''peak_end''" using l by force
qed

lemma column_length: "column t n = Inr cs \<Longrightarrow> length cs = length (rows t)"
  by (auto simp: column_def and_then_eq_Inr)

lemma num_column_eq_Inr:
  "num_column t n = Inr xs \<longleftrightarrow> (\<exists>cs. column t n = Inr cs \<and> for_each num cs = Inr xs)"
  by (simp add: num_column_def and_then_eq_Inr)

lemma num_column_length: "num_column t n = Inr xs \<Longrightarrow> length xs = length (rows t)"
  by (auto simp: num_column_eq_Inr dest!: column_length for_each_length)

lemma for_each_num_F: "for_each num (map F xs) = Inr xs"
  by (induction xs) (simp_all add: num_def)

lemma for_each_round_F: "for_each round_cell (map F xs) = Inr (map (\<lambda>x. F (round5 x)) xs)"
  by (induction xs) (simp_all add: round_cell_def)

lemma set_column_twice:
  assumes "well_formed t" and "length vs = length (rows t)" and "length ws = length (rows t)"
  shows "set_column (set_column t n vs) n ws = set_column t n ws"
proof (cases "n \<in> set (columns t)")
  case True
  have "length rs = length vs \<Longrightarrow> length vs = length ws \<Longrightarrow>
        map2 (\<lambda>r v. r[i := v]) (map2 (\<lambda>r v. r[i := v]) rs vs) ws
          = map2 (\<lambda>r v. r[i := v]) rs ws" for i and rs :: "cell list list"
    by (induction rs vs ws rule: list_induct3) auto
  then show ?thesis using True assms(2,3) by (simp add: set_column_def Let_def)
next
  case False
  have k: "length (takeWhile (\<lambda>h. h \<noteq> n) (columns t @ [n])) = length (columns t)"
    using False get_loc_new[of n "columns t"] by (simp add: get_loc_def)
  have "length rs = length vs \<Longrightarrow> length vs = length ws \<Longrightarrow> \<forall>r\<in>set rs. length r = k \<Longrightarrow>
        map2 (\<lambda>r v. r[k := v]) (map2 (\<lambda>r v. r @ [v]) rs vs) ws = map2 (\<lambda>r v. r @ [v]) rs ws"
    for rs :: "cell list list" and k
    by (induction rs vs ws rule: list_induct3) auto
  moreover have "\<forall>r\<in>set (rows t). length r = length (columns t)"
    using assms(1) by (simp add: well_formed_def list_all_iff)
  ultimately show ?thesis
    using False assms(2,3) by (simp add: set_column_def Let_def k)
qed

lemma round_column_set_column:
  assumes "well_formed t" and "length xs = length (rows t)"
  shows "round_column (set_column t n (map F xs)) n = Inr (set_column t n (map (\<lambda>x. F (round5 x)) xs))"
  using assms
  by (simp add: round_column_def column_set_column_same for_each_round_F set_column_twice)

text \<open>The fold changes before rounding: a list with one value for each row, when all are finite.\<close>

lemma add_log2fc_eq_Inr:
  assumes "well_formed t"
  shows "add_log2fc a t A B = Inr t1 \<longleftrightarrow>
           (\<exists>xs ys fc. num_column t (A @ ''_score'') = Inr xs \<and>
              num_column t (B @ ''_score'') = Inr ys \<and>
              for_each (\<lambda>(x, y). log2_ratio (x + pseudo a) (y + pseudo a)) (zip xs ys) = Inr fc \<and>
              t1 = set_column t (A @ ''_'' @ B @ ''_log2fc'') (map (\<lambda>v. F (round5 v)) fc))"
proof -
  have r: "round_column (set_column t (A @ ''_'' @ B @ ''_log2fc'') (map F fc))
              (A @ ''_'' @ B @ ''_log2fc'')
           = Inr (set_column t (A @ ''_'' @ B @ ''_log2fc'') (map (\<lambda>v. F (round5 v)) fc))"
    if "column t (A @ ''_score'') = Inr c1" "column t (B @ ''_score'') = Inr c2"
      "for_each num c1 = Inr xs" "for_each num c2 = Inr ys"
      "for_each (\<lambda>(x, y). log2_ratio (x + pseudo a) (y + pseudo a)) (zip xs ys) = Inr fc"
    for c1 c2 xs ys fc
  proof -
    have "length fc = length (rows t)"
      using that by (auto dest!: column_length for_each_length)
    then show ?thesis using assms by (simp add: round_column_set_column)
  qed
  show ?thesis
  proof
    assume "add_log2fc a t A B = Inr t1"
    then obtain c1 c2 xs ys fc where h:
      "column t (A @ ''_score'') = Inr c1" "column t (B @ ''_score'') = Inr c2"
      "for_each num c1 = Inr xs" "for_each num c2 = Inr ys"
      "for_each (\<lambda>(x, y). log2_ratio (x + pseudo a) (y + pseudo a)) (zip xs ys) = Inr fc"
      "round_column (set_column t (A @ ''_'' @ B @ ''_log2fc'') (map F fc))
         (A @ ''_'' @ B @ ''_log2fc'') = Inr t1"
      unfolding add_log2fc_def Let_def and_then_eq_Inr append_assoc by blast
    have "t1 = set_column t (A @ ''_'' @ B @ ''_log2fc'') (map (\<lambda>v. F (round5 v)) fc)"
      using r[OF h(1-5)] h(6) by simp
    then show "\<exists>xs ys fc. num_column t (A @ ''_score'') = Inr xs \<and>
              num_column t (B @ ''_score'') = Inr ys \<and>
              for_each (\<lambda>(x, y). log2_ratio (x + pseudo a) (y + pseudo a)) (zip xs ys) = Inr fc \<and>
              t1 = set_column t (A @ ''_'' @ B @ ''_log2fc'') (map (\<lambda>v. F (round5 v)) fc)"
      using h(1-5) unfolding num_column_eq_Inr by blast
  next
    assume "\<exists>xs ys fc. num_column t (A @ ''_score'') = Inr xs \<and>
              num_column t (B @ ''_score'') = Inr ys \<and>
              for_each (\<lambda>(x, y). log2_ratio (x + pseudo a) (y + pseudo a)) (zip xs ys) = Inr fc \<and>
              t1 = set_column t (A @ ''_'' @ B @ ''_log2fc'') (map (\<lambda>v. F (round5 v)) fc)"
    then obtain c1 c2 xs ys fc where h:
      "column t (A @ ''_score'') = Inr c1" "column t (B @ ''_score'') = Inr c2"
      "for_each num c1 = Inr xs" "for_each num c2 = Inr ys"
      "for_each (\<lambda>(x, y). log2_ratio (x + pseudo a) (y + pseudo a)) (zip xs ys) = Inr fc"
      and t1: "t1 = set_column t (A @ ''_'' @ B @ ''_log2fc'') (map (\<lambda>v. F (round5 v)) fc)"
      unfolding num_column_eq_Inr by blast
    show "add_log2fc a t A B = Inr t1"
      unfolding add_log2fc_def Let_def append_assoc using h r[OF h] t1 by simp
  qed
qed

section \<open>The observed values of a comparison\<close>

lemma map_boolean_index: "map f (boolean_index xs bs) = boolean_index (map f xs) bs"
  unfolding boolean_index_def
proof (induction xs arbitrary: bs)
  case Nil
  then show ?case by simp
next
  case (Cons x xs)
  then show ?case by (cases bs) auto
qed

lemma zip_boolean_index:
  "zip (boolean_index xs bs) (boolean_index ys bs) = boolean_index (zip xs ys) bs"
  unfolding boolean_index_def
proof (induction xs arbitrary: ys bs)
  case Nil
  then show ?case by simp
next
  case (Cons x xs)
  show ?case
  proof (cases ys)
    case Nil
    then show ?thesis by simp
  next
    case ys: (Cons y ys')
    show ?thesis by (cases bs) (auto simp: ys Cons.IH)
  qed
qed

lemma length_boolean_index:
  "length xs = length bs \<Longrightarrow> length (boolean_index xs bs) = length (filter id bs)"
  unfolding boolean_index_def
  by (induction xs bs rule: list_induct2) auto

lemma column_boolean_index:
  "column (t\<lparr>rows := boolean_index (rows t) bs\<rparr>) n =
     and_then (column t n) (\<lambda>cs. Inr (boolean_index cs bs))"
  by (cases "get_loc (columns t) n") (simp_all add: column_def map_boolean_index)

lemma num_column_boolean_index:
  "num_column t n = Inr xs \<Longrightarrow>
   num_column (t\<lparr>rows := boolean_index (rows t) bs\<rparr>) n = Inr (boolean_index xs bs)"
  by (auto simp: num_column_eq_Inr column_boolean_index for_each_boolean_index)

lemma observed_log2fcs_set_column:
  assumes "well_formed t" and "length fc = length (rows t)"
  shows "observed_log2fcs lib (set_column t (A @ ''_'' @ B @ ''_log2fc'') (map F fc)) A B =
           observed_of lib t A B fc"
proof -
  let ?n = "A @ ''_'' @ B @ ''_log2fc''"
  let ?t1 = "set_column t ?n (map F fc)"
  have l: "length (map F fc) = length (rows t)" using assms(2) by simp
  have c: "column ?t1 m = column t m" if "m \<noteq> ?n" for m
    using column_set_column_other[OF assms(1) l that] .
  have nc: "num_column ?t1 m = num_column t m" if "m \<noteq> ?n" for m
    using c[OF that] by (simp add: num_column_def)
  have s: "num_column ?t1 (A @ ''_score'') = num_column t (A @ ''_score'')"
    "num_column ?t1 (B @ ''_score'') = num_column t (B @ ''_score'')"
    using nc log2fc_not_score by metis+
  have p: "column ?t1 ''peak_chr'' = column t ''peak_chr''"
    "column ?t1 ''peak_start'' = column t ''peak_start''"
    "column ?t1 ''peak_end'' = column t ''peak_end''"
    using c log2fc_not_peak by metis+
  have f: "num_column (?t1\<lparr>rows := boolean_index (rows ?t1) bs\<rparr>) ?n = Inr (boolean_index fc bs)" for bs
    by (rule num_column_boolean_index)
       (simp add: num_column_def column_set_column_same[OF assms(1) l] for_each_num_F)
  show ?thesis
    unfolding observed_log2fcs_def observed_of_def Let_def append_assoc s
      column_boolean_index p f
    by (auto simp: and_then_def zip_boolean_index split: sum.splits)
qed

section \<open>Means of groups, the fit, and the change of sign\<close>

lemma for_each_pointwise:
  "(\<And>x. x \<in> set xs \<Longrightarrow> f x = Inr (g x)) \<Longrightarrow> for_each f xs = Inr (map g xs)"
  by (induction xs) simp_all

lemma group_values_nonempty:
  assumes "length keys = length vals" and "k \<in> set keys"
  shows "group_values keys vals k \<noteq> []"
proof -
  obtain i where i: "i < length keys" "keys ! i = k"
    using assms(2) by (auto simp: in_set_conv_nth)
  then have "(k, vals ! i) \<in> set (zip keys vals)"
    using assms(1) by (auto simp: set_zip)
  then show ?thesis
    by (auto simp: group_values_def filter_empty_conv)
qed

lemma groupby_mean_eq:
  assumes "length keys = length vals"
  shows "groupby_mean keys vals =
           Inr (map (\<lambda>k. sum_list (group_values keys vals k) / real (length (group_values keys vals k)))
                  (sort (remdups keys)))"
  unfolding groupby_mean_def
  by (rule for_each_pointwise)
     (use group_values_nonempty[OF assms] in \<open>simp add: np_mean_def flip: group_values_def\<close>)

lemma group_values_uminus:
  "group_values keys (map uminus vals) k = map uminus (group_values keys vals k)"
  unfolding group_values_def
proof (induction keys arbitrary: vals)
  case Nil
  then show ?case by simp
next
  case (Cons a keys)
  then show ?case by (cases vals) auto
qed

lemma sum_list_uminus: "sum_list (map uminus xs) = - sum_list (xs :: real list)"
  by (induction xs) simp_all

lemma groupby_mean_uminus:
  assumes "length keys = length vals"
  shows "groupby_mean keys (map uminus vals) = map_sum id (map uminus) (groupby_mean keys vals)"
proof -
  have "length keys = length (map uminus vals)" using assms by simp
  then show ?thesis
    by (simp add: groupby_mean_eq assms group_values_uminus sum_list_uminus o_def)
qed

lemma norm_fit_uminus:
  "norm_fit xs = Inr (m, sd) \<Longrightarrow> norm_fit (map uminus xs) = Inr (- m, sd)"
proof -
  assume a: "norm_fit xs = Inr (m, sd)"
  then have ne: "xs \<noteq> []" by (auto simp: norm_fit_def split: if_splits)
  have sq: "(sum_list xs / real (length xs) - x)\<^sup>2 = (x - sum_list xs / real (length xs))\<^sup>2" for x
    by (rule power2_commute)
  show ?thesis
    using a ne by (auto simp: norm_fit_def Let_def sum_list_uminus o_def sq)
qed

lemma differential_uminus:
  assumes "sign_symmetric (ttest_ind_from_stats lib)"
    and "differential lib observed (bg_mean, bg_std) = Inr (change, pval)"
  shows "differential lib (map uminus observed) (- bg_mean, bg_std) = Inr (- change, pval)"
proof -
  obtain m sd where f: "norm_fit observed = Inr (m, sd)"
    using assms(2) by (auto simp: differential_def and_then_eq_Inr)
  have t: "ttest_ind_from_stats lib (- m) sd n (- bg_mean) bg_std n
             = ttest_ind_from_stats lib m sd n bg_mean bg_std n" for n
    using assms(1) by (simp add: sign_symmetric_def)
  have nz: "m \<noteq> bg_mean \<longrightarrow> sd + bg_std \<noteq> 0"
    using assms(2) by (auto simp: differential_def f np_mean_def Let_def split: if_splits)
  have nz': "- m \<noteq> - bg_mean \<longrightarrow> sd + bg_std \<noteq> 0"
    using nz by simp
  have r: "round5 ((- m - - bg_mean) / x) = - round5 ((m - bg_mean) / x)" for x
    using round5_minus[of "(m - bg_mean) / x"] by (simp add: minus_divide_left)
  have "Inr (change, pval) =
          Inr (if m = bg_mean then (0, 1)
               else (round5 ((m - bg_mean) / ((sd + bg_std) / 2)),
                     ttest_ind_from_stats lib m sd (min (length observed) 50000)
                       bg_mean bg_std (min (length observed) 50000)))"
    using differential_eq[OF f nz, of lib] assms(2) by simp
  then show ?thesis
    unfolding differential_eq[OF norm_fit_uminus[OF f] nz', of lib] r t
    by (auto split: if_splits)
qed

section \<open>The reversed comparison\<close>

lemma log2_ratio_swap: "log2_ratio x y = Inr v \<Longrightarrow> log2_ratio y x = Inr (- v)"
proof -
  assume a: "log2_ratio x y = Inr v"
  then have y: "y \<noteq> 0" and q: "0 < x / y" and v: "v = log 2 (x / y)"
    by (auto simp: log2_ratio_def split: if_splits)
  have x: "x \<noteq> 0" using q by auto
  have i: "y / x = inverse (x / y)" by simp
  have li: "log 2 (inverse (x / y)) = - log 2 (x / y)"
    by (simp only: log_inverse)
  have "0 < y / x" using q by (auto simp: zero_less_divide_iff)
  moreover have "log 2 (y / x) = - log 2 (x / y)"
    using li by simp
  ultimately show ?thesis using x v by (simp add: log2_ratio_def)
qed

lemma fold_changes_swap:
  "for_each (\<lambda>(x, y). log2_ratio (x + p) (y + p)) (zip xs ys) = Inr fc \<Longrightarrow>
   for_each (\<lambda>(x, y). log2_ratio (x + p) (y + p)) (zip ys xs) = Inr (map uminus fc)"
proof (induction xs arbitrary: ys fc)
  case Nil
  then show ?case by simp
next
  case (Cons x xs)
  show ?case
  proof (cases ys)
    case Nil
    then show ?thesis using Cons.prems by simp
  next
    case ys: (Cons y ys')
    obtain v fc' where h: "fc = v # fc'" "log2_ratio (x + p) (y + p) = Inr v"
      "for_each (\<lambda>(x, y). log2_ratio (x + p) (y + p)) (zip xs ys') = Inr fc'"
      using Cons.prems unfolding ys zip_Cons_Cons for_each_Cons_eq_Inr by auto
    show ?thesis
      using Cons.IH[OF h(3)] log2_ratio_swap[OF h(2)] by (simp add: ys h(1))
  qed
qed

lemma included_swap:
  "map (\<lambda>(x, y). 0 < x \<or> 0 < y) (zip ys xs) = map (\<lambda>(x :: real, y :: real). 0 < x \<or> 0 < y) (zip xs ys)"
proof (induction xs arbitrary: ys)
  case Nil
  then show ?case by simp
next
  case (Cons x xs)
  then show ?case by (cases ys) auto
qed

lemma observed_of_swap:
  assumes "observed_of lib t A B fc = Inr obs" and "length fc = length (rows t)"
  shows "observed_of lib t B A (map uminus fc) = Inr (map uminus obs)"
proof -
  obtain xs ys cs ss es ids where h:
    "num_column t (A @ ''_score'') = Inr xs" "num_column t (B @ ''_score'') = Inr ys"
    "column t ''peak_chr'' = Inr cs" "column t ''peak_start'' = Inr ss"
    "column t ''peak_end'' = Inr es"
    "for_each (\<lambda>(c, s, e). peak_id lib c s e)
       (boolean_index (zip cs (zip ss es)) (map (\<lambda>(x, y). 0 < x \<or> 0 < y) (zip xs ys))) = Inr ids"
    "groupby_mean ids (boolean_index fc (map (\<lambda>(x, y). 0 < x \<or> 0 < y) (zip xs ys))) = Inr obs"
    using assms(1) unfolding observed_of_def Let_def and_then_eq_Inr by blast
  let ?inc = "map (\<lambda>(x, y). 0 < x \<or> 0 < y) (zip xs ys)"
  have n: "length xs = length (rows t)" "length ys = length (rows t)"
    "length cs = length (rows t)" "length ss = length (rows t)" "length es = length (rows t)"
    using h(1-5) by (auto dest: num_column_length column_length)
  have "length ids = length (boolean_index (zip cs (zip ss es)) ?inc)"
    using h(6) by (rule for_each_length)
  also have "\<dots> = length (filter id ?inc)"
    by (rule length_boolean_index) (simp add: n)
  also have "\<dots> = length (boolean_index fc ?inc)"
    by (rule length_boolean_index[symmetric]) (simp add: n assms(2))
  finally have l: "length ids = length (boolean_index fc ?inc)" .
  have "groupby_mean ids (boolean_index (map uminus fc) ?inc) = Inr (map uminus obs)"
    using groupby_mean_uminus[OF l] h(7) by (simp add: map_boolean_index)
  then show ?thesis
    unfolding observed_of_def Let_def
    by (simp add: h included_swap[of ys xs])
qed

text \<open>
  C5. When the background fit supplied for (B, A) mirrors the one for (A, B) (the mean
  negated, the same standard deviation) and the test's p-value does not change when both
  means change sign, then, on the same table, the comparison (B, A) succeeds where (A, B)
  does, its change is the negation of the change of (A, B) and its p-value is the same.
\<close>

theorem reversed_comparison:
  assumes "sign_symmetric (ttest_ind_from_stats lib)"
    and "well_formed t"
    and "params (A, B) = Some (bg_mean, bg_std)"
    and "params (B, A) = Some (- bg_mean, bg_std)"
    and "comparison_step lib a params (t, info) (A, B) = Inr (t1, info1)"
  shows "\<exists>t2 info2 change pval.
           comparison_step lib a params (t, info) (B, A) = Inr (t2, info2) \<and>
           map_of info1 (A @ ''_'' @ B @ ''_change'') = Some change \<and>
           map_of info2 (B @ ''_'' @ A @ ''_change'') = Some (- change) \<and>
           map_of info1 (A @ ''_'' @ B @ ''_pvalue'') = Some pval \<and>
           map_of info2 (B @ ''_'' @ A @ ''_pvalue'') = Some pval"
proof -
  obtain obs change pval where h:
    "add_log2fc a t A B = Inr t1" "observed_log2fcs lib t1 A B = Inr obs"
    "differential lib obs (bg_mean, bg_std) = Inr (change, pval)"
    and info1: "info1 = at_set (at_set info (A @ ''_'' @ B @ ''_change'') change)
                          (A @ ''_'' @ B @ ''_pvalue'') pval"
    using assms(5) unfolding comparison_step_def Let_def append_assoc
    by (auto simp: and_then_eq_Inr assms(3))
  obtain xs ys fc where f:
    "num_column t (A @ ''_score'') = Inr xs" "num_column t (B @ ''_score'') = Inr ys"
    "for_each (\<lambda>(x, y). log2_ratio (x + pseudo a) (y + pseudo a)) (zip xs ys) = Inr fc"
    "t1 = set_column t (A @ ''_'' @ B @ ''_log2fc'') (map (\<lambda>v. F (round5 v)) fc)"
    using h(1) unfolding add_log2fc_eq_Inr[OF assms(2)] by blast
  let ?fc = "map round5 fc"
  have l: "length ?fc = length (rows t)"
    using f(1-3) by (auto dest!: for_each_length num_column_length)
  have t1: "t1 = set_column t (A @ ''_'' @ B @ ''_log2fc'') (map F ?fc)"
    using f(4) by (simp add: o_def)
  have o: "observed_of lib t A B ?fc = Inr obs"
    using h(2) unfolding t1 observed_log2fcs_set_column[OF assms(2) l] .
  define t2 where "t2 = set_column t (B @ ''_'' @ A @ ''_log2fc'') (map F (map uminus ?fc))"
  have "map (\<lambda>v. F (round5 v)) (map uminus fc) = map F (map uminus ?fc)"
    by (simp add: o_def round5_minus)
  then have a2: "add_log2fc a t B A = Inr t2"
    unfolding add_log2fc_eq_Inr[OF assms(2)] t2_def
    using f(1,2) fold_changes_swap[OF f(3)] by metis
  have l2: "length (map uminus ?fc) = length (rows t)" using l by simp
  have o2: "observed_log2fcs lib t2 B A = Inr (map uminus obs)"
    unfolding t2_def observed_log2fcs_set_column[OF assms(2) l2]
    using observed_of_swap[OF o l] .
  have d2: "differential lib (map uminus obs) (- bg_mean, bg_std) = Inr (- change, pval)"
    using differential_uminus[OF assms(1) h(3)] .
  have "comparison_step lib a params (t, info) (B, A) =
          Inr (t2, at_set (at_set info (B @ ''_'' @ A @ ''_change'') (- change))
                     (B @ ''_'' @ A @ ''_pvalue'') pval)"
    using comparison_step_eq[where params = params and info = info, OF a2 o2 assms(4) d2] .
  then show ?thesis
    unfolding info1 by (auto simp: map_of_at_set_same map_of_at_set_other)
qed

lemma welch_sign_symmetric: "sign_symmetric (welch sf)"
  unfolding sign_symmetric_def welch_def Let_def
  by (simp add: abs_minus_commute)

lemma example_well_formed: "well_formed example_table"
  by (simp add: well_formed_def example_table_def example_header_def example_rows_def)

lemma example_comparison:
  assumes "params (''WT'', ''KO'') = Some (bg_mean, bg_std)" and "1 / 4 \<noteq> bg_mean \<longrightarrow> 5 / 4 + bg_std \<noteq> 0"
  shows "comparison_step example_libs example_args params
           (example_table, new_info_table example_args) (''WT'', ''KO'') =
         Inr (set_column example_table ''WT_KO_log2fc'' [F 1, F 2, F (- 1), F 0],
              at_set (at_set (new_info_table example_args) ''WT_KO_change''
                        (if 1 / 4 = bg_mean then 0 else round5 ((1 / 4 - bg_mean) / ((5 / 4 + bg_std) / 2))))
                ''WT_KO_pvalue''
                (if 1 / 4 = bg_mean then 1
                 else ttest_ind_from_stats example_libs (1 / 4) (5 / 4) 2 bg_mean bg_std 2))"
proof -
  have d: "differential example_libs [3 / 2, - 1] (bg_mean, bg_std) =
             Inr (if 1 / 4 = bg_mean then 0 else round5 ((1 / 4 - bg_mean) / ((5 / 4 + bg_std) / 2)),
                  if 1 / 4 = bg_mean then 1
                  else ttest_ind_from_stats example_libs (1 / 4) (5 / 4) 2 bg_mean bg_std 2)"
    using differential_eq[OF example_fit assms(2), of example_libs] by (simp add: numeral_2_eq_2)
  show ?thesis
    using comparison_step_eq[where params = params and info = "new_info_table example_args",
        OF example_add_log2fc example_observed assms(1) d]
    by simp
qed

theorem reversed_comparison_witness:
  "\<exists>t2 info2.
     comparison_step example_libs example_args
       [(''WT'', ''KO'') \<mapsto> (1 / 2, 1 / 4), (''KO'', ''WT'') \<mapsto> (- (1 / 2), 1 / 4)]
       (example_table, new_info_table example_args) (''KO'', ''WT'') = Inr (t2, info2) \<and>
     map_of info2 ''KO_WT_change'' = Some (33333 / 100000) \<and>
     map_of info2 ''KO_WT_pvalue'' =
       Some (ttest_ind_from_stats example_libs (1 / 4) (5 / 4) 2 (1 / 2) (1 / 4) 2)"
proof -
  let ?P = "[(''WT'', ''KO'') \<mapsto> (1 / 2, 1 / 4 :: real), (''KO'', ''WT'') \<mapsto> (- (1 / 2), 1 / 4)]"
  have p1: "?P (''WT'', ''KO'') = Some (1 / 2, 1 / 4)" by simp
  have p2: "?P (''KO'', ''WT'') = Some (- (1 / 2), 1 / 4)" by simp
  have nz: "(1 / 4 :: real) \<noteq> 1 / 2 \<longrightarrow> (5 / 4 :: real) + 1 / 4 \<noteq> 0" by simp
  have r: "round5 (- (1 / 3)) = - (33333 / 100000)"
    by (simp add: round5_minus round5_examples)
  have fwd: "comparison_step example_libs example_args ?P
           (example_table, new_info_table example_args) (''WT'', ''KO'') =
         Inr (set_column example_table ''WT_KO_log2fc'' [F 1, F 2, F (- 1), F 0],
              at_set (at_set (new_info_table example_args) ''WT_KO_change'' (- (33333 / 100000)))
                ''WT_KO_pvalue''
                (ttest_ind_from_stats example_libs (1 / 4) (5 / 4) 2 (1 / 2) (1 / 4) 2))"
    using example_comparison[where params = ?P, OF p1 nz] by (simp add: r)
  have s: "sign_symmetric (ttest_ind_from_stats example_libs)"
    by (simp add: example_libs_def welch_sign_symmetric)
  show ?thesis
    using reversed_comparison[where params = ?P, OF s example_well_formed p1 _ fwd] p2
    by (auto simp: map_of_at_set_same map_of_at_set_other)
qed

section \<open>Fold changes and their means, peak by peak\<close>

lemma fold_changes_finite:
  assumes "list_all (\<lambda>(x, y). y + p \<noteq> 0 \<and> 0 < (x + p) / (y + p)) (zip xs ys)"
  shows "for_each (\<lambda>(x, y). log2_ratio (x + p) (y + p)) (zip xs ys) =
           Inr (map (\<lambda>(x, y). log 2 ((x + p) / (y + p))) (zip xs ys))"
  by (rule for_each_pointwise) (use assms in \<open>auto simp: list_all_iff log2_ratio_def\<close>)

text \<open>
  C6. For a comparison (A, B) on a table whose fold changes are finite: the column of the
  log2 fold changes holds, for each occurrence, log2((scoreA + pseudo) / (scoreB + pseudo))
  rounded to five decimals (line 269); the occurrences that enter are those where scoreA
  or scoreB is above zero; the observed values are the means of the rounded fold changes
  of the included occurrences with the same peak id, one value for each distinct peak id.
\<close>

theorem fold_changes_per_peak:
  assumes "well_formed t"
    and "num_column t (A @ ''_score'') = Inr xs" and "num_column t (B @ ''_score'') = Inr ys"
    and "list_all (\<lambda>(x, y). y + pseudo a \<noteq> 0 \<and> 0 < (x + pseudo a) / (y + pseudo a)) (zip xs ys)"
    and "column t ''peak_chr'' = Inr cs" and "column t ''peak_start'' = Inr ss"
    and "column t ''peak_end'' = Inr es"
    and "included = map (\<lambda>(x, y). 0 < x \<or> 0 < y) (zip xs ys)"
    and "for_each (\<lambda>(c, s, e). peak_id lib c s e) (boolean_index (zip cs (zip ss es)) included) = Inr ids"
    and "log2fc = map (\<lambda>(x, y). round5 (log 2 ((x + pseudo a) / (y + pseudo a)))) (zip xs ys)"
  shows "\<exists>t1. add_log2fc a t A B = Inr t1 \<and>
           num_column t1 (A @ ''_'' @ B @ ''_log2fc'') = Inr log2fc \<and>
           observed_log2fcs lib t1 A B =
             Inr (map (\<lambda>k. sum_list (group_values ids (boolean_index log2fc included) k)
                          / real (length (group_values ids (boolean_index log2fc included) k)))
                    (sort (remdups ids))) \<and>
           length (sort (remdups ids)) = card (set ids)"
proof -
  let ?n = "A @ ''_'' @ B @ ''_log2fc''"
  let ?fc = "map (\<lambda>(x, y). log 2 ((x + pseudo a) / (y + pseudo a))) (zip xs ys)"
  have r: "map (\<lambda>v. F (round5 v)) ?fc = map F log2fc"
    by (simp add: assms(10) o_def case_prod_beta)
  have a1: "add_log2fc a t A B = Inr (set_column t ?n (map F log2fc))"
    unfolding add_log2fc_eq_Inr[OF assms(1)]
    using assms(2,3) fold_changes_finite[OF assms(4)] r by metis
  have n: "length xs = length (rows t)" "length ys = length (rows t)"
    "length cs = length (rows t)" "length ss = length (rows t)" "length es = length (rows t)"
    using assms(2,3,5,6,7) by (auto dest: num_column_length column_length)
  have l: "length log2fc = length (rows t)" by (simp add: assms(10) n)
  have lF: "length (map F log2fc) = length (rows t)" using l by simp
  have c: "num_column (set_column t ?n (map F log2fc)) ?n = Inr log2fc"
    by (simp add: num_column_def column_set_column_same[OF assms(1) lF] for_each_num_F)
  have "length ids = length (boolean_index (zip cs (zip ss es)) included)"
    using assms(9) by (rule for_each_length)
  also have "\<dots> = length (filter id included)"
    by (rule length_boolean_index) (simp add: n assms(8))
  also have "\<dots> = length (boolean_index log2fc included)"
    by (rule length_boolean_index[symmetric]) (simp add: n l assms(8))
  finally have li: "length ids = length (boolean_index log2fc included)" .
  have o: "observed_log2fcs lib (set_column t ?n (map F log2fc)) A B =
             groupby_mean ids (boolean_index log2fc included)"
    unfolding observed_log2fcs_set_column[OF assms(1) l] observed_of_def Let_def
    using assms(9) by (simp add: assms(2,3,5,6,7) flip: assms(8))
  show ?thesis
    using a1 c o groupby_mean_eq[OF li] by (simp add: length_remdups_card_conv)
qed

lemma example_columns:
  "num_column example_table ''WT_score'' = Inr [3, 7, 1, 0]"
  "num_column example_table ''KO_score'' = Inr [1, 1, 3, 0]"
  "column example_table ''peak_chr'' = Inr [S ''chr1'', S ''chr1'', S ''chr2'', S ''chr3'']"
  "column example_table ''peak_start'' = Inr [I 50, I 50, I 250, I 10]"
  "column example_table ''peak_end'' = Inr [I 500, I 500, I 900, I 800]"
  by (simp_all add: num_column_def column_def get_loc_def num_def example_table_def
      example_header_def example_rows_def)

theorem fold_changes_per_peak_witness:
  "\<exists>t1. add_log2fc example_args example_table ''WT'' ''KO'' = Inr t1 \<and>
         num_column t1 ''WT_KO_log2fc'' = Inr [1, 2, - 1, 0] \<and>
         observed_log2fcs example_libs t1 ''WT'' ''KO'' = Inr [3 / 2, - 1]"
proof -
  have fin: "list_all (\<lambda>(x, y). y + pseudo example_args \<noteq> 0
                         \<and> 0 < (x + pseudo example_args) / (y + pseudo example_args))
               (zip [3, 7, 1, 0] [1, 1, 3, 0])"
    by (simp add: example_args_def)
  have inc: "[True, True, True, False] = map (\<lambda>(x :: real, y :: real). 0 < x \<or> 0 < y) (zip [3, 7, 1, 0] [1, 1, 3, 0])"
    by simp
  have ids: "for_each (\<lambda>(c, s, e). peak_id example_libs c s e)
               (boolean_index (zip [S ''chr1'', S ''chr1'', S ''chr2'', S ''chr3'']
                                 (zip [I 50, I 50, I 250, I 10] [I 500, I 500, I 900, I 800]))
                  [True, True, True, False])
             = Inr [''chr1_50_500'', ''chr1_50_500'', ''chr2_250_900'']"
    by (simp add: boolean_index_def peak_id_def str_cell_def example_str)
  have fc: "[1, 2, - 1, 0] =
              map (\<lambda>(x, y). round5 (log 2 ((x + pseudo example_args) / (y + pseudo example_args))))
                (zip [3, 7, 1, 0] [1, 1, 3, 0])"
    by (simp add: example_args_def log2_4 log2_half round5_examples)
  have g: "group_values [''chr1_50_500'', ''chr1_50_500'', ''chr2_250_900'']
             (boolean_index [1, 2, - 1, 0] [True, True, True, False]) ''chr1_50_500'' = [1, 2]"
    "group_values [''chr1_50_500'', ''chr1_50_500'', ''chr2_250_900'']
             (boolean_index [1, 2, - 1, 0] [True, True, True, False]) ''chr2_250_900'' = [- 1]"
    by (simp_all add: group_values_def boolean_index_def)
  have x: "num_column example_table (''WT'' @ ''_score'') = Inr [3, 7, 1, 0]"
    and y: "num_column example_table (''KO'' @ ''_score'') = Inr [1, 1, 3, 0]"
    by (simp_all add: example_columns)
  show ?thesis
    using fold_changes_per_peak[where A = "''WT''" and B = "''KO''",
        OF example_well_formed x y fin example_columns(3,4,5) inc ids fc]
    by (simp add: example_order g)
qed

section \<open>A fold change that rounding changes\<close>

lemma log2_3_not_fraction:
  assumes "0 < m"
  shows "log 2 3 \<noteq> of_int k / of_nat m"
proof
  assume e: "log 2 3 = of_int k / of_nat m"
  have "0 < log 2 (3 :: real)" by simp
  then have "0 < (of_int k :: real) / of_nat m" using e by simp
  then have "0 < k" using assms by (simp add: zero_less_divide_iff)
  then obtain n where n: "k = int n" "0 < n"
    by (metis nat_0_less_mult_iff nat_eq_iff2 pos_int_cases zero_less_nat_eq mult.right_neutral)
  have "(3 :: real) = 2 powr (log 2 3)" by simp
  also have "\<dots> = 2 powr (real n / real m)" using e n by simp
  finally have "(3 :: real) ^ m = (2 powr (real n / real m)) ^ m" by simp
  also have "\<dots> = 2 powr (real n / real m * real m)"
    by (simp add: powr_powr flip: powr_realpow)
  also have "\<dots> = 2 powr (real n)" using assms by simp
  also have "\<dots> = 2 ^ n" by (simp add: powr_realpow)
  finally have "real (3 ^ m) = real (2 ^ n)" by simp
  then have "(3 :: nat) ^ m = 2 ^ n" by (simp only: of_nat_eq_iff)
  moreover have "odd ((3 :: nat) ^ m)" by simp
  moreover have "even ((2 :: nat) ^ n)" using n(2) by simp
  ultimately show False by simp
qed

lemma round5_log2_3: "round5 (log 2 3) \<noteq> log 2 3"
proof
  assume "round5 (log 2 3) = log 2 3"
  then have "log 2 3 = of_int (rint (log 2 3 * 100000)) / of_nat 100000"
    by (simp add: round5_def)
  moreover have "(0 :: nat) < 100000" by simp
  ultimately show False using log2_3_not_fraction by blast
qed

theorem fold_changes_per_peak_counterexample:
  "and_then (add_log2fc example_args
               \<lparr>columns = example_header,
                rows = [[S ''chr1'', I 100, I 110, S ''M'', F 8.5, S ''+'',
                         S ''chr1'', I 50, I 500, F 0.5, F 2, F 0]]\<rparr> ''WT'' ''KO'')
      (\<lambda>t1. num_column t1 ''WT_KO_log2fc'') = Inr [round5 (log 2 3)]
   \<and> round5 (log 2 3) \<noteq> log 2 ((2 + 1) / (0 + 1))"
proof -
  have "and_then (add_log2fc example_args
               \<lparr>columns = example_header,
                rows = [[S ''chr1'', I 100, I 110, S ''M'', F 8.5, S ''+'',
                         S ''chr1'', I 50, I 500, F 0.5, F 2, F 0]]\<rparr> ''WT'' ''KO'')
      (\<lambda>t1. num_column t1 ''WT_KO_log2fc'') = Inr [round5 (log 2 3)]"
    by (simp add: add_log2fc_def example_args_def example_header_def column_def get_loc_def
        num_def log2_ratio_def set_column_def round_column_def round_cell_def num_column_def)
  then show ?thesis using round5_log2_3 by simp
qed

section \<open>Failures of reads, writes and removals\<close>

lemma run_then_Inr [simp]: "run_then (evs, Inr x) f = (case f x of (evs', r) \<Rightarrow> (evs @ evs', r))"
  by (simp add: run_then_def)

lemma run_then_Inl [simp]: "run_then (evs, Inl e) f = (evs, Inl e)"
  by (simp add: run_then_def)

lemma run_then_eq_Inr:
  "run_then m f = (evs, Inr y) \<longleftrightarrow>
     (\<exists>evs1 x evs2. m = (evs1, Inr x) \<and> f x = (evs2, Inr y) \<and> evs = evs1 @ evs2)"
  by (cases m; cases "snd m") (auto split: prod.splits)

lemma pure_eq [simp]: "pure r = (evs, r') \<longleftrightarrow> evs = [] \<and> r' = r"
  by (auto simp: pure_def)

lemma to_csv_cong:
  assumes "to_csv_raises fs' = to_csv_raises fs"
  shows "to_csv fs' = to_csv fs"
  unfolding to_csv_def assms ..

lemma write_subset_cong:
  assumes "to_csv fs' = to_csv fs"
  shows "write_subset fs' = write_subset fs"
  unfolding write_subset_def assms ..

lemma write_excel_cong:
  assumes "to_excel_raises fs' = to_excel_raises fs"
  shows "write_excel fs' = write_excel fs"
  unfolding write_excel_def assms ..

lemma unchanged_by_excel [simp]:
  "load_table (fs\<lparr>to_excel_raises := x\<rparr>) = load_table fs"
  "to_csv (fs\<lparr>to_excel_raises := x\<rparr>) = to_csv fs"
  "write_subset (fs\<lparr>to_excel_raises := x\<rparr>) = write_subset fs"
  "remove_tmp (fs\<lparr>to_excel_raises := x\<rparr>) = remove_tmp fs"
proof -
  show "load_table (fs\<lparr>to_excel_raises := x\<rparr>) = load_table fs"
    by (intro ext) (simp add: load_table_def)
  show c: "to_csv (fs\<lparr>to_excel_raises := x\<rparr>) = to_csv fs"
    by (rule to_csv_cong) simp
  show "write_subset (fs\<lparr>to_excel_raises := x\<rparr>) = write_subset fs"
    using c by (rule write_subset_cong)
  show "remove_tmp (fs\<lparr>to_excel_raises := x\<rparr>) = remove_tmp fs"
    by (intro ext) (simp add: remove_tmp_def)
qed

lemma unchanged_by_remove [simp]:
  "load_table (fs\<lparr>remove_raises := x\<rparr>) = load_table fs"
  "to_csv (fs\<lparr>remove_raises := x\<rparr>) = to_csv fs"
  "write_subset (fs\<lparr>remove_raises := x\<rparr>) = write_subset fs"
  "write_excel (fs\<lparr>remove_raises := x\<rparr>) = write_excel fs"
proof -
  show "load_table (fs\<lparr>remove_raises := x\<rparr>) = load_table fs"
    by (intro ext) (simp add: load_table_def)
  show c: "to_csv (fs\<lparr>remove_raises := x\<rparr>) = to_csv fs"
    by (rule to_csv_cong) simp
  show "write_subset (fs\<lparr>remove_raises := x\<rparr>) = write_subset fs"
    using c by (rule write_subset_cong)
  show "write_excel (fs\<lparr>remove_raises := x\<rparr>) = write_excel fs"
    by (rule write_excel_cong) simp
qed

lemma unreadable_file:
  assumes "genfromtxt fs (os_path_join (os_path_join (outdir a) [TF, ''beds'']) [TF @ ''.tmp'']) = Inl e"
  shows "process_tfbs lib fs TF a params = ([], Inl e)"
  using assms by (simp add: process_tfbs_def Let_def load_table_def pure_def)

lemma process_tfbs_Inr:
  assumes "process_tfbs lib fs TF a params = (evs, Inr info)"
  obtains t0 ts ev1 tsplit info2 ev2 tfinal ev3 ev4 ev5 where
    "load_table fs a (os_path_join (os_path_join (outdir a) [TF, ''beds'']) [TF @ ''.tmp'']) = Inr t0"
    "sort_and_format a t0 = Inr ts"
    "to_csv fs (os_path_join (os_path_join (outdir a) [TF, ''beds'']) [TF @ ''_all.bed'']) False ts
       (filter (\<lambda>col. col \<noteq> ''GC'') (columns t0)) = (ev1, Inr ())"
    "bound_split a (ts, at_set (new_info_table a) ''total_tfbs'' (real (fst (shape t0))))
       = Inr (tsplit, info2)"
    "run_each (write_subset fs (os_path_join (outdir a) [TF, ''beds'']) TF a (columns t0) tsplit)
       (List.product (cond_names a) [''bound'', ''unbound'']) = (ev2, Inr ())"
    "for_loop (comparison_step lib a params) (tsplit, info2) (comparisons a) = Inr (tfinal, info)"
    "to_csv fs (os_path_join (outdir a) [TF, TF @ ''_overview.txt'']) True tfinal
       (filter (\<lambda>col. col \<noteq> ''GC'') (columns tfinal)) = (ev3, Inr ())"
    "write_excel fs TF (os_path_join (outdir a) [TF, TF @ ''_overview.xlsx'']) tfinal
       (filter (\<lambda>col. col \<noteq> ''GC'') (columns tfinal)) = (ev4, Inr ())"
    "remove_tmp fs (os_path_join (os_path_join (outdir a) [TF, ''beds'']) [TF @ ''.tmp''])
       = (ev5, Inr ())"
    "evs = ev1 @ ev2 @ ev3 @ ev4 @ ev5"
proof -
  have "\<exists>t0 ts ev1 tsplit info2 ev2 tfinal ev3 ev4 ev5.
    Inr t0 = load_table fs a (os_path_join (os_path_join (outdir a) [TF, ''beds'']) [TF @ ''.tmp'']) \<and>
    Inr ts = sort_and_format a t0 \<and>
    to_csv fs (os_path_join (os_path_join (outdir a) [TF, ''beds'']) [TF @ ''_all.bed'']) False ts
       (filter (\<lambda>col. col \<noteq> ''GC'') (columns t0)) = (ev1, Inr ()) \<and>
    Inr (tsplit, info2) =
      bound_split a (ts, at_set (new_info_table a) ''total_tfbs'' (real (fst (shape t0)))) \<and>
    run_each (write_subset fs (os_path_join (outdir a) [TF, ''beds'']) TF a (columns t0) tsplit)
       (List.product (cond_names a) [''bound'', ''unbound'']) = (ev2, Inr ()) \<and>
    Inr (tfinal, info) = for_loop (comparison_step lib a params) (tsplit, info2) (comparisons a) \<and>
    to_csv fs (os_path_join (outdir a) [TF, TF @ ''_overview.txt'']) True tfinal
       (filter (\<lambda>col. col \<noteq> ''GC'') (columns tfinal)) = (ev3, Inr ()) \<and>
    write_excel fs TF (os_path_join (outdir a) [TF, TF @ ''_overview.xlsx'']) tfinal
       (filter (\<lambda>col. col \<noteq> ''GC'') (columns tfinal)) = (ev4, Inr ()) \<and>
    remove_tmp fs (os_path_join (os_path_join (outdir a) [TF, ''beds'']) [TF @ ''.tmp''])
       = (ev5, Inr ()) \<and>
    evs = ev1 @ ev2 @ ev3 @ ev4 @ ev5"
    using assms
    unfolding process_tfbs_def Let_def
    apply (auto simp: run_then_eq_Inr split: prod.splits)
    apply blast
    done
  then show ?thesis using that by metis
qed

lemma unchanged_by_csv [simp]:
  "load_table (fs\<lparr>to_csv_raises := x\<rparr>) = load_table fs"
  by (intro ext) (simp add: load_table_def)

lemma to_csv_Inr:
  "to_csv fs path h t names = (evs, Inr u) \<Longrightarrow> \<exists>content. select_columns t names = Inr content"
  by (auto simp: to_csv_def split: sum.splits)

lemma excel_failure:
  assumes "process_tfbs lib fs TF a params = (evs, Inr info)"
  shows "\<exists>evs'. process_tfbs lib (fs\<lparr>to_excel_raises := \<lambda>_. True\<rparr>) TF a params =
           (evs' @ [Printed (''Error writing excelfile for TF '' @ TF)], Inl SystemExit)"
proof -
  from assms obtain t0 ts ev1 tsplit info2 ev2 tfinal ev3 ev4 ev5 where h:
    "load_table fs a (os_path_join (os_path_join (outdir a) [TF, ''beds'']) [TF @ ''.tmp'']) = Inr t0"
    "sort_and_format a t0 = Inr ts"
    "to_csv fs (os_path_join (os_path_join (outdir a) [TF, ''beds'']) [TF @ ''_all.bed'']) False ts
       (filter (\<lambda>col. col \<noteq> ''GC'') (columns t0)) = (ev1, Inr ())"
    "bound_split a (ts, at_set (new_info_table a) ''total_tfbs'' (real (fst (shape t0))))
       = Inr (tsplit, info2)"
    "run_each (write_subset fs (os_path_join (outdir a) [TF, ''beds'']) TF a (columns t0) tsplit)
       (List.product (cond_names a) [''bound'', ''unbound'']) = (ev2, Inr ())"
    "for_loop (comparison_step lib a params) (tsplit, info2) (comparisons a) = Inr (tfinal, info)"
    "to_csv fs (os_path_join (outdir a) [TF, TF @ ''_overview.txt'']) True tfinal
       (filter (\<lambda>col. col \<noteq> ''GC'') (columns tfinal)) = (ev3, Inr ())"
    by (rule process_tfbs_Inr)
  have "process_tfbs lib (fs\<lparr>to_excel_raises := \<lambda>_. True\<rparr>) TF a params =
          ((ev1 @ ev2 @ ev3) @ [Printed (''Error writing excelfile for TF '' @ TF)], Inl SystemExit)"
    by (simp add: process_tfbs_def Let_def pure_def h write_excel_def split: sum.splits)
  then show ?thesis by blast
qed

lemma remove_failure:
  assumes "process_tfbs lib fs TF a params = (evs, Inr info)"
  shows "\<exists>evs'. process_tfbs lib (fs\<lparr>remove_raises := \<lambda>_. True\<rparr>) TF a params =
           (evs' @ [Logged (''Could not remove temporary file ''
                            @ os_path_join (os_path_join (outdir a) [TF, ''beds'']) [TF @ ''.tmp'']
                            @ '' - this does not effect the results of BINDetect.'')],
            Inr info)"
proof -
  from assms obtain t0 ts ev1 tsplit info2 ev2 tfinal ev3 ev4 ev5 where h:
    "load_table fs a (os_path_join (os_path_join (outdir a) [TF, ''beds'']) [TF @ ''.tmp'']) = Inr t0"
    "sort_and_format a t0 = Inr ts"
    "to_csv fs (os_path_join (os_path_join (outdir a) [TF, ''beds'']) [TF @ ''_all.bed'']) False ts
       (filter (\<lambda>col. col \<noteq> ''GC'') (columns t0)) = (ev1, Inr ())"
    "bound_split a (ts, at_set (new_info_table a) ''total_tfbs'' (real (fst (shape t0))))
       = Inr (tsplit, info2)"
    "run_each (write_subset fs (os_path_join (outdir a) [TF, ''beds'']) TF a (columns t0) tsplit)
       (List.product (cond_names a) [''bound'', ''unbound'']) = (ev2, Inr ())"
    "for_loop (comparison_step lib a params) (tsplit, info2) (comparisons a) = Inr (tfinal, info)"
    "to_csv fs (os_path_join (outdir a) [TF, TF @ ''_overview.txt'']) True tfinal
       (filter (\<lambda>col. col \<noteq> ''GC'') (columns tfinal)) = (ev3, Inr ())"
    "write_excel fs TF (os_path_join (outdir a) [TF, TF @ ''_overview.xlsx'']) tfinal
       (filter (\<lambda>col. col \<noteq> ''GC'') (columns tfinal)) = (ev4, Inr ())"
    by (rule process_tfbs_Inr)
  have "process_tfbs lib (fs\<lparr>remove_raises := \<lambda>_. True\<rparr>) TF a params =
          ((ev1 @ ev2 @ ev3 @ ev4) @
           [Logged (''Could not remove temporary file ''
                    @ os_path_join (os_path_join (outdir a) [TF, ''beds'']) [TF @ ''.tmp'']
                    @ '' - this does not effect the results of BINDetect.'')], Inr info)"
    by (simp add: process_tfbs_def Let_def pure_def h remove_tmp_def)
  then show ?thesis by blast
qed

lemma csv_failure:
  assumes "process_tfbs lib fs TF a params = (evs, Inr info)"
  shows "process_tfbs lib (fs\<lparr>to_csv_raises := \<lambda>_. Some e\<rparr>) TF a params = ([], Inl e)"
proof -
  from assms obtain t0 ts ev1 where h:
    "load_table fs a (os_path_join (os_path_join (outdir a) [TF, ''beds'']) [TF @ ''.tmp'']) = Inr t0"
    "sort_and_format a t0 = Inr ts"
    "to_csv fs (os_path_join (os_path_join (outdir a) [TF, ''beds'']) [TF @ ''_all.bed'']) False ts
       (filter (\<lambda>col. col \<noteq> ''GC'') (columns t0)) = (ev1, Inr ())"
    by (rule process_tfbs_Inr)
  obtain content where c: "select_columns ts (filter (\<lambda>col. col \<noteq> ''GC'') (columns t0)) = Inr content"
    using to_csv_Inr[OF h(3)] by blast
  show ?thesis
    by (simp add: process_tfbs_def Let_def pure_def h to_csv_def c)
qed

lemma read_failure:
  "process_tfbs lib (fs\<lparr>genfromtxt := \<lambda>_. Inl e\<rparr>) TF a params = ([], Inl e)"
  by (rule unreadable_file) simp

section \<open>A complete run on the example\<close>

lemma example_paths:
  "os_path_join (os_path_join ''out'' [''M'', ''beds'']) [''M'' @ ''.tmp''] = ''out/M/beds/M.tmp''"
  by (simp add: os_path_join_def join_step_def)

lemma example_make_header: "make_header 12 None [''WT'', ''KO''] = Inr example_header"
  by code_simp

lemma example_load:
  "load_table example_files example_args ''out/M/beds/M.tmp'' = Inr example_table"
proof -
  have n: "(case example_rows of [] \<Rightarrow> 0 | r # _ \<Rightarrow> length r) = 12"
    by (simp add: example_rows_def)
  have r: "list_all (\<lambda>r. length r = 12) example_rows"
    by (simp add: example_rows_def)
  have d: "distinct example_header"
    by (simp add: example_header_def)
  have g: "genfromtxt example_files ''out/M/beds/M.tmp'' = Inr example_rows"
    by (simp add: example_files_def)
  have a: "peak_header_list example_args = None" "cond_names example_args = [''WT'', ''KO'']"
    by (simp_all add: example_args_def)
  show ?thesis
    unfolding load_table_def g and_then_Inr Let_def n a example_make_header
    using r d by (simp add: example_table_def)
qed

lemma round5_scores: "round5 3 = 3" "round5 7 = 7"
  by (simp_all add: round5_def rint_def Let_def)

lemma example_sorted: "sort_values example_table [''TFBS_chr'', ''TFBS_start'', ''TFBS_end''] = Inr example_table"
  apply (simp add: sort_values_def example_table_def example_header_def get_loc_def)
  apply (simp add: example_rows_def cell_key_def)
  done

lemma example_sort_and_format: "sort_and_format example_args example_table = Inr example_table"
  unfolding sort_and_format_def example_sorted and_then_Inr
  by (simp add: example_args_def round_column_def column_def get_loc_def example_table_def
      example_header_def example_rows_def round_cell_def set_column_def round5_scores round5_examples)

lemma round5_means: "round5 (11 / 4) = 11 / 4" "round5 (5 / 4) = 5 / 4"
  by (simp_all add: round5_def rint_def Let_def)

lemma example_bound_split:
  "bound_split example_args (example_table, info) =
     Inr (example_split,
          at_set (at_set (at_set (at_set info ''WT_mean_score'' (11 / 4)) ''WT_bound'' 2)
                    ''KO_mean_score'' (5 / 4)) ''KO_bound'' 1)"
  by (simp add: bound_split_def example_args_def bound_split_step_def
      example_split_def num_column_def column_def get_loc_def example_table_def
      example_header_def example_rows_def num_def set_column_def np_mean_def round5_means)

lemma process_tfbs_success:
  assumes
    "load_table fs a (os_path_join (os_path_join (outdir a) [TF, ''beds'']) [TF @ ''.tmp'']) = Inr t0"
    "sort_and_format a t0 = Inr ts"
    "to_csv fs (os_path_join (os_path_join (outdir a) [TF, ''beds'']) [TF @ ''_all.bed'']) False ts
       (filter (\<lambda>col. col \<noteq> ''GC'') (columns t0)) = (ev1, Inr ())"
    "bound_split a (ts, at_set (new_info_table a) ''total_tfbs'' (real (fst (shape t0))))
       = Inr (tsplit, info2)"
    "run_each (write_subset fs (os_path_join (outdir a) [TF, ''beds'']) TF a (columns t0) tsplit)
       (List.product (cond_names a) [''bound'', ''unbound'']) = (ev2, Inr ())"
    "for_loop (comparison_step lib a params) (tsplit, info2) (comparisons a) = Inr (tfinal, info)"
    "to_csv fs (os_path_join (outdir a) [TF, TF @ ''_overview.txt'']) True tfinal
       (filter (\<lambda>col. col \<noteq> ''GC'') (columns tfinal)) = (ev3, Inr ())"
    "write_excel fs TF (os_path_join (outdir a) [TF, TF @ ''_overview.xlsx'']) tfinal
       (filter (\<lambda>col. col \<noteq> ''GC'') (columns tfinal)) = (ev4, Inr ())"
    "remove_tmp fs (os_path_join (os_path_join (outdir a) [TF, ''beds'']) [TF @ ''.tmp''])
       = (ev5, Inr ())"
  shows "process_tfbs lib fs TF a params = (ev1 @ ev2 @ ev3 @ ev4 @ ev5, Inr info)"
  by (simp add: process_tfbs_def Let_def pure_def assms)

lemma select_columns_total:
  assumes "set names \<subseteq> set (columns t)"
  shows "\<exists>content. select_columns t names = Inr content"
proof -
  have "for_each (get_loc (columns t)) names =
          Inr (map (\<lambda>n. length (takeWhile (\<lambda>h. h \<noteq> n) (columns t))) names)"
    by (rule for_each_pointwise) (use assms in \<open>auto simp: get_loc_def\<close>)
  then show ?thesis by (simp add: select_columns_def)
qed

lemma to_csv_total:
  assumes "to_csv_raises fs path = None" and "set names \<subseteq> set (columns t)"
  shows "\<exists>ev. to_csv fs path h t names = (ev, Inr ())"
  using select_columns_total[OF assms(2)] assms(1) by (auto simp: to_csv_def)

lemma example_split_columns:
  "columns example_split = example_header @ [''WT_bound'', ''KO_bound'']"
  by (simp add: example_split_def set_column_def example_table_def example_header_def)

lemma example_write_subsets:
  "\<exists>ev. run_each (write_subset example_files (os_path_join ''out'' [''M'', ''beds'']) ''M''
              example_args example_header example_split)
           (List.product [''WT'', ''KO''] [''bound'', ''unbound'']) = (ev, Inr ())"
proof -
  have "snd (run_each (write_subset example_files (os_path_join ''out'' [''M'', ''beds'']) ''M''
              example_args example_header example_split)
           (List.product [''WT'', ''KO''] [''bound'', ''unbound''])) = Inr ()"
    by (simp add: write_subset_def example_split_def set_column_def example_table_def
        example_header_def example_rows_def column_def get_loc_def sort_values_descending_def
        to_csv_def select_columns_def example_files_def example_args_def slice_def slice_bound_def
        cell_key_def)
  then show ?thesis by (metis prod.collapse)
qed

lemma example_split_add_log2fc:
  "add_log2fc example_args example_split ''WT'' ''KO'' = Inr example_final"
  by (simp add: add_log2fc_def example_args_def example_split_def example_table_def
      example_header_def example_rows_def column_def get_loc_def num_def log2_ratio_def
      set_column_def round_column_def round_cell_def log2_4 log2_half round5_examples
      example_final_def)

lemma example_split_observed:
  "observed_log2fcs lib example_final ''WT'' ''KO'' = Inr [3 / 2, - 1]"
  by (simp add: observed_log2fcs_def example_final_def example_split_def example_table_def
      example_header_def example_rows_def column_def num_column_def get_loc_def num_def
      set_column_def peak_id_def str_cell_def groupby_mean_def np_mean_def example_order
      example_str boolean_index_def)

lemma example_info_eq:
  "at_set (at_set (at_set (at_set (at_set (at_set (at_set (new_info_table example_args)
      ''total_tfbs'' 4) ''WT_mean_score'' (11 / 4)) ''WT_bound'' 2) ''KO_mean_score'' (5 / 4))
      ''KO_bound'' 1) ''WT_KO_change'' change) ''WT_KO_pvalue'' pval = example_info change pval"
  by (simp add: new_info_table_def info_columns_def example_args_def at_set_def example_info_def)

lemma example_run:
  assumes "params (''WT'', ''KO'') = Some (bg_mean, bg_std)"
    and "1 / 4 \<noteq> bg_mean \<longrightarrow> 5 / 4 + bg_std \<noteq> 0"
  shows "\<exists>evs. process_tfbs example_libs example_files ''M'' example_args params =
           (evs, Inr (example_info
              (if 1 / 4 = bg_mean then 0 else round5 ((1 / 4 - bg_mean) / ((5 / 4 + bg_std) / 2)))
              (if 1 / 4 = bg_mean then 1
               else ttest_ind_from_stats example_libs (1 / 4) (5 / 4) 2 bg_mean bg_std 2)))"
proof -
  let ?change = "if 1 / 4 = bg_mean then 0 else round5 ((1 / 4 - bg_mean) / ((5 / 4 + bg_std) / 2))"
  let ?pval = "if 1 / 4 = bg_mean then 1
               else ttest_ind_from_stats example_libs (1 / 4) (5 / 4) 2 bg_mean bg_std 2"
  have a: "outdir example_args = ''out''" "cond_names example_args = [''WT'', ''KO'']"
    "comparisons example_args = [(''WT'', ''KO'')]"
    by (simp_all add: example_args_def)
  have p: "os_path_join (os_path_join ''out'' [''M'', ''beds'']) [''M'' @ ''.tmp''] = ''out/M/beds/M.tmp''"
    by (rule example_paths)
  have c0: "columns example_table = example_header" by (simp add: example_table_def)
  have n: "real (fst (shape example_table)) = 4"
    by (simp add: shape_def example_table_def example_rows_def)
  have nr: "to_csv_raises example_files path = None" for path
    by (simp add: example_files_def)
  obtain ev1 where e1:
    "to_csv example_files (os_path_join (os_path_join ''out'' [''M'', ''beds'']) [''M'' @ ''_all.bed''])
       False example_table (filter (\<lambda>col. col \<noteq> ''GC'') example_header) = (ev1, Inr ())"
    using to_csv_total[OF nr, of "filter (\<lambda>col. col \<noteq> ''GC'') example_header" example_table]
    by (auto simp: c0)
  obtain ev2 where e2:
    "run_each (write_subset example_files (os_path_join ''out'' [''M'', ''beds'']) ''M''
              example_args example_header example_split)
           (List.product [''WT'', ''KO''] [''bound'', ''unbound'']) = (ev2, Inr ())"
    using example_write_subsets by blast
  have d: "differential example_libs [3 / 2, - 1] (bg_mean, bg_std) = Inr (?change, ?pval)"
    using differential_eq[OF example_fit assms(2), of example_libs] by (simp add: numeral_2_eq_2)
  have cmp: "for_loop (comparison_step example_libs example_args params)
               (example_split,
                at_set (at_set (at_set (at_set (at_set (new_info_table example_args)
                  ''total_tfbs'' 4) ''WT_mean_score'' (11 / 4)) ''WT_bound'' 2)
                  ''KO_mean_score'' (5 / 4)) ''KO_bound'' 1)
               [(''WT'', ''KO'')]
             = Inr (example_final, example_info ?change ?pval)"
    using comparison_step_eq[where params = params, OF example_split_add_log2fc
        example_split_observed assms(1) d]
    by (simp add: example_info_eq)
  obtain ev3 where e3:
    "to_csv example_files (os_path_join ''out'' [''M'', ''M'' @ ''_overview.txt'']) True example_final
       (filter (\<lambda>col. col \<noteq> ''GC'') (columns example_final)) = (ev3, Inr ())"
    using to_csv_total[OF nr, of "filter (\<lambda>col. col \<noteq> ''GC'') (columns example_final)" example_final]
    by auto
  obtain content where sc:
    "select_columns example_final (filter (\<lambda>col. col \<noteq> ''GC'') (columns example_final)) = Inr content"
    using select_columns_total[of "filter (\<lambda>col. col \<noteq> ''GC'') (columns example_final)" example_final]
    by auto
  have e4: "write_excel example_files ''M'' (os_path_join ''out'' [''M'', ''M'' @ ''_overview.xlsx''])
              example_final (filter (\<lambda>col. col \<noteq> ''GC'') (columns example_final))
            = ([WroteExcel (os_path_join ''out'' [''M'', ''M'' @ ''_overview.xlsx''])
                  (filter (\<lambda>col. col \<noteq> ''GC'') (columns example_final)) content], Inr ())"
    by (simp add: write_excel_def sc example_files_def)
  have e5: "remove_tmp example_files ''out/M/beds/M.tmp'' = ([Removed ''out/M/beds/M.tmp''], Inr ())"
    by (simp add: remove_tmp_def example_files_def)
  show ?thesis
    using process_tfbs_success[where lib = example_libs and fs = example_files and TF = "''M''"
        and a = example_args and params = params and ?t0.0 = example_table
        and ts = example_table and tsplit = example_split and tfinal = example_final,
        unfolded a p c0 n example_bound_split, OF example_load example_sort_and_format e1 refl e2 cmp e3 e4 e5]
    by blast
qed

section \<open>The occurrences of the classified table\<close>

lemma for_loop_invariant:
  assumes "for_loop body s xs = Inr s'" and "P s"
    and "\<And>s x s'. P s \<Longrightarrow> body s x = Inr s' \<Longrightarrow> P s'"
  shows "P s'"
  using assms(1,2)
proof (induction xs arbitrary: s)
  case Nil
  then show ?case by simp
next
  case (Cons x xs)
  then obtain s1 where s1: "body s x = Inr s1" "for_loop body s1 xs = Inr s'"
    by (auto split: sum.splits)
  show ?case using Cons.IH[OF s1(2)] assms(3)[OF Cons.prems(2) s1(1)] .
qed

lemma score_not_key:
  "c @ ''_score'' \<noteq> ''TFBS_chr''" "c @ ''_score'' \<noteq> ''TFBS_start''" "c @ ''_score'' \<noteq> ''TFBS_end''"
proof -
  have l: "last (c @ ''_score'') = CHR ''e''" by simp
  show "c @ ''_score'' \<noteq> ''TFBS_chr''" using l by force
  show "c @ ''_score'' \<noteq> ''TFBS_start''" using l by force
  show "c @ ''_score'' \<noteq> ''TFBS_end''" using l by force
qed

lemma bound_not_key:
  "c @ ''_bound'' \<noteq> ''TFBS_chr''" "c @ ''_bound'' \<noteq> ''TFBS_start''" "c @ ''_bound'' \<noteq> ''TFBS_end''"
proof -
  have l: "last (c @ ''_bound'') = CHR ''d''" by simp
  show "c @ ''_bound'' \<noteq> ''TFBS_chr''" using l by force
  show "c @ ''_bound'' \<noteq> ''TFBS_start''" using l by force
  show "c @ ''_bound'' \<noteq> ''TFBS_end''"
  proof
    assume "c @ ''_bound'' = ''TFBS_end''"
    then have "rev (c @ ''_bound'') = rev ''TFBS_end''" by simp
    then show False by simp
  qed
qed

lemma occurrences_set_column:
  assumes "well_formed t" and "length vs = length (rows t)"
    and "n \<noteq> ''TFBS_chr''" and "n \<noteq> ''TFBS_start''" and "n \<noteq> ''TFBS_end''"
  shows "occurrences (set_column t n vs) = occurrences t"
  unfolding occurrences_def
  using column_set_column_other[OF assms(1,2)] assms(3,4,5) by metis

lemma round_column_Inr:
  assumes "round_column t n = Inr t'"
  shows "\<exists>vs. length vs = length (rows t) \<and> t' = set_column t n vs"
proof -
  obtain vals vals' where h: "column t n = Inr vals" "for_each round_cell vals = Inr vals'"
    "t' = set_column t n vals'"
    using assms unfolding round_column_def and_then_eq_Inr by auto
  have "length vals' = length (rows t)"
    using h(1,2) by (auto dest!: column_length for_each_length)
  then show ?thesis using h(3) by blast
qed

lemma bound_split_step_Inr:
  assumes "bound_split_step a (t, info) c = Inr (t', info')"
  shows "\<exists>vs. length vs = length (rows t) \<and> t' = set_column t (c @ ''_bound'') vs"
proof -
  obtain threshold scores where h: "thresholds a c = Some threshold"
    "num_column t (c @ ''_score'') = Inr scores"
    "t' = set_column t (c @ ''_bound'') (map (\<lambda>x. I (if threshold < x then 1 else 0)) scores)"
    using assms unfolding bound_split_step_def Let_def
    by (auto simp: and_then_eq_Inr split: option.splits)
  have "length (map (\<lambda>x. I (if threshold < x then 1 else 0)) scores) = length (rows t)"
    using num_column_length[OF h(2)] by simp
  then show ?thesis using h(3) by blast
qed

lemma load_table_well_formed:
  assumes "load_table fs a filename = Inr t"
  shows "well_formed t"
proof -
  obtain arr header where h: "genfromtxt fs filename = Inr arr"
    "list_all (\<lambda>r. length r = (case arr of [] \<Rightarrow> 0 | r # _ \<Rightarrow> length r)) arr"
    "make_header (case arr of [] \<Rightarrow> 0 | r # _ \<Rightarrow> length r) (peak_header_list a) (cond_names a)
       = Inr header"
    "t = \<lparr>columns = header, rows = arr\<rparr>"
    using assms unfolding load_table_def Let_def
    by (auto simp: and_then_eq_Inr split: if_splits)
  have "length header = (case arr of [] \<Rightarrow> 0 | r # _ \<Rightarrow> length r)"
    using h(3) unfolding make_header_def Let_def by (auto split: sum.splits if_splits)
  then show ?thesis using h(2,4) by (simp add: well_formed_def)
qed

lemma sort_values_occurrences:
  assumes "sort_values t [''TFBS_chr'', ''TFBS_start'', ''TFBS_end''] = Inr t'"
  shows "\<exists>ocs0 ocs. occurrences t = Inr ocs0 \<and> occurrences t' = Inr ocs \<and>
           mset ocs = mset ocs0 \<and> sorted (map occurrence_key ocs)"
    and "columns t' = columns t" and "length (rows t') = length (rows t)"
    and "well_formed t \<Longrightarrow> well_formed t'"
proof -
  obtain idx where idx:
    "for_each (get_loc (columns t)) [''TFBS_chr'', ''TFBS_start'', ''TFBS_end''] = Inr idx"
    "t' = t\<lparr>rows := sort_key (\<lambda>r. map (\<lambda>i. cell_key (r ! i)) idx) (rows t)\<rparr>"
    using assms unfolding sort_values_def and_then_eq_Inr by blast
  obtain i1 i2 i3 where i: "get_loc (columns t) ''TFBS_chr'' = Inr i1"
    "get_loc (columns t) ''TFBS_start'' = Inr i2" "get_loc (columns t) ''TFBS_end'' = Inr i3"
    "idx = [i1, i2, i3]"
    using idx(1) unfolding for_each_eq_Inr by (auto simp: list_all2_Cons1)
  have t': "t' = t\<lparr>rows := sort_key (\<lambda>r. map (\<lambda>i. cell_key (r ! i)) [i1, i2, i3]) (rows t)\<rparr>"
    using idx(2) i(4) by simp
  let ?K = "\<lambda>r. map (\<lambda>i. cell_key (r ! i)) [i1, i2, i3]"
  let ?g = "\<lambda>r :: cell list. (r ! i1, r ! i2, r ! i3)"
  have z: "zip (map (\<lambda>r. r ! i1) rs) (zip (map (\<lambda>r. r ! i2) rs) (map (\<lambda>r. r ! i3) rs)) = map ?g rs"
    for rs :: "cell list list"
    by (induction rs) simp_all
  have o0: "occurrences t = Inr (map ?g (rows t))"
    by (simp add: occurrences_def column_def i z)
  have o1: "occurrences t' = Inr (map ?g (sort_key ?K (rows t)))"
    by (simp add: occurrences_def column_def i z t')
  have k: "map occurrence_key (map ?g rs) = map ?K rs" for rs
    by (simp add: occurrence_key_def)
  have "sorted (map occurrence_key (map ?g (sort_key ?K (rows t))))"
    unfolding k by (rule sorted_sort_key)
  moreover have "mset (map ?g (sort_key ?K (rows t))) = mset (map ?g (rows t))"
    by simp
  ultimately show "\<exists>ocs0 ocs. occurrences t = Inr ocs0 \<and> occurrences t' = Inr ocs \<and>
           mset ocs = mset ocs0 \<and> sorted (map occurrence_key ocs)"
    using o0 o1 by blast
  show "columns t' = columns t" by (simp add: t')
  show "length (rows t') = length (rows t)" by (simp add: t')
  show "well_formed t \<Longrightarrow> well_formed t'"
    by (simp add: t' well_formed_def list_all_iff)
qed

lemma sort_and_format_occurrences:
  assumes "well_formed t0" and "sort_and_format a t0 = Inr ts"
  shows "\<exists>ocs0 ocs. occurrences t0 = Inr ocs0 \<and> occurrences ts = Inr ocs \<and>
           mset ocs = mset ocs0 \<and> sorted (map occurrence_key ocs)"
    and "well_formed ts" and "length (rows ts) = length (rows t0)"
proof -
  obtain t1 where t1: "sort_values t0 [''TFBS_chr'', ''TFBS_start'', ''TFBS_end''] = Inr t1"
    and l: "for_loop (\<lambda>tb condition. round_column tb (condition @ ''_score'')) t1 (cond_names a) = Inr ts"
    using assms(2) unfolding sort_and_format_def and_then_eq_Inr by blast
  let ?P = "\<lambda>tb. well_formed tb \<and> occurrences tb = occurrences t1 \<and> length (rows tb) = length (rows t1)"
  have step: "?P tb'" if p: "?P tb" and r: "round_column tb (c @ ''_score'') = Inr tb'" for tb tb' c
  proof -
    obtain vs where vs: "length vs = length (rows tb)" "tb' = set_column tb (c @ ''_score'') vs"
      using round_column_Inr[OF r] by blast
    show ?thesis
      using p vs occurrences_set_column[OF _ vs(1) score_not_key, of c]
      by (simp add: well_formed_set_column length_rows_set_column)
  qed
  have "?P t1" using sort_values_occurrences(4)[OF t1 assms(1)] by simp
  then have P: "?P ts"
    by (rule for_loop_invariant[OF l]) (rule step)
  show "\<exists>ocs0 ocs. occurrences t0 = Inr ocs0 \<and> occurrences ts = Inr ocs \<and>
           mset ocs = mset ocs0 \<and> sorted (map occurrence_key ocs)"
    using sort_values_occurrences(1)[OF t1] P by simp
  show "well_formed ts" using P by simp
  show "length (rows ts) = length (rows t0)"
    using P sort_values_occurrences(3)[OF t1] by simp
qed

lemma bound_split_occurrences:
  assumes "well_formed ts" and "bound_split a (ts, info) = Inr (t, info')"
  shows "occurrences t = occurrences ts \<and> length (rows t) = length (rows ts) \<and> well_formed t"
proof -
  let ?P = "\<lambda>s. well_formed (fst s) \<and> occurrences (fst s) = occurrences ts
                \<and> length (rows (fst s)) = length (rows ts)"
  have step: "?P s'" if p: "?P s" and r: "bound_split_step a s c = Inr s'" for s s' c
  proof -
    obtain vs where vs: "length vs = length (rows (fst s))"
      "fst s' = set_column (fst s) (c @ ''_bound'') vs"
      using bound_split_step_Inr[of a "fst s" "snd s" c "fst s'" "snd s'"] r by auto
    show ?thesis
      using p vs occurrences_set_column[OF _ vs(1) bound_not_key, of c]
      by (simp add: well_formed_set_column length_rows_set_column)
  qed
  have "?P (ts, info)" using assms(1) by simp
  then have "?P (t, info')"
    by (rule for_loop_invariant[OF assms(2)[unfolded bound_split_def]]) (rule step)
  then show ?thesis by simp
qed

text \<open>
  C1. The per-motif pipeline sorts the occurrences of the motif by chromosome, start and
  end and classifies them; it applies no overlap resolution: the classified table holds
  exactly the occurrences read from the temporary file, each as often as it was read, in
  sorted order.
\<close>

theorem classified_table_keeps_occurrences:
  assumes "load_table fs a filename = Inr t0" and "classified_table fs a filename = Inr t"
  shows "\<exists>ocs0 ocs. occurrences t0 = Inr ocs0 \<and> occurrences t = Inr ocs \<and>
           mset ocs = mset ocs0 \<and> sorted (map occurrence_key ocs) \<and>
           length (rows t) = length (rows t0)"
proof -
  obtain ts info' where h: "sort_and_format a t0 = Inr ts"
    "bound_split a (ts, new_info_table a) = Inr (t, info')"
    using assms(2) unfolding classified_table_def assms(1) and_then_Inr
    by (auto simp: and_then_eq_Inr)
  have wf: "well_formed t0" using assms(1) by (rule load_table_well_formed)
  show ?thesis
    using sort_and_format_occurrences[OF wf h(1)]
      bound_split_occurrences[OF sort_and_format_occurrences(2)[OF wf h(1)] h(2)]
    by auto
qed

lemma example_classified:
  "classified_table example_files example_args ''out/M/beds/M.tmp'' = Inr example_split"
  by (simp add: classified_table_def example_load example_sort_and_format example_bound_split)

theorem classified_table_keeps_occurrences_witness:
  "\<exists>ocs0 ocs. occurrences example_table = Inr ocs0 \<and> occurrences example_split = Inr ocs \<and>
     mset ocs = mset ocs0 \<and> sorted (map occurrence_key ocs) \<and>
     length (rows example_split) = length (rows example_table)"
  using classified_table_keeps_occurrences[OF example_load example_classified] .

theorem classified_table_counterexample:
  "and_then (classified_table overlapping_files example_args ''out/M/beds/M.tmp'') occurrences
     = Inr [(S ''chr1'', I 100, I 110), (S ''chr1'', I 105, I 115)]
   \<and> overlaps (S ''chr1'', I 100, I 110) (S ''chr1'', I 105, I 115)"
proof -
  have n: "(case overlapping_rows of [] \<Rightarrow> 0 | r # _ \<Rightarrow> length r) = 12"
    by (simp add: overlapping_rows_def)
  have r: "list_all (\<lambda>r. length r = 12) overlapping_rows"
    by (simp add: overlapping_rows_def)
  have d: "distinct example_header"
    by (simp add: example_header_def)
  have g: "genfromtxt overlapping_files ''out/M/beds/M.tmp'' = Inr overlapping_rows"
    by (simp add: overlapping_files_def)
  have a: "peak_header_list example_args = None" "cond_names example_args = [''WT'', ''KO'']"
    by (simp_all add: example_args_def)
  have l: "load_table overlapping_files example_args ''out/M/beds/M.tmp''
             = Inr \<lparr>columns = example_header, rows = overlapping_rows\<rparr>"
    unfolding load_table_def g and_then_Inr Let_def n a example_make_header
    using r d by simp
  have s: "sort_values \<lparr>columns = example_header, rows = overlapping_rows\<rparr>
             [''TFBS_chr'', ''TFBS_start'', ''TFBS_end'']
           = Inr \<lparr>columns = example_header, rows = rev overlapping_rows\<rparr>"
    by (simp add: sort_values_def example_header_def get_loc_def overlapping_rows_def cell_key_def)
  have f: "sort_and_format example_args \<lparr>columns = example_header, rows = overlapping_rows\<rparr>
           = Inr \<lparr>columns = example_header, rows = rev overlapping_rows\<rparr>"
    unfolding sort_and_format_def s and_then_Inr
    by (simp add: example_args_def round_column_def column_def get_loc_def
        example_header_def overlapping_rows_def round_cell_def set_column_def round5_scores
        round5_examples)
  have "and_then (classified_table overlapping_files example_args ''out/M/beds/M.tmp'') occurrences
     = Inr [(S ''chr1'', I 100, I 110), (S ''chr1'', I 105, I 115)]"
    unfolding classified_table_def l f and_then_Inr
    by (simp add: bound_split_def example_args_def bound_split_step_def
      num_column_def column_def get_loc_def example_header_def overlapping_rows_def num_def
      set_column_def np_mean_def occurrences_def round5_def rint_def)
  then show ?thesis by (simp add: overlaps_def)
qed

section \<open>The scan: states put together\<close>

lemma append_lists_upd:
  "m1 k = Some xs \<Longrightarrow> append_lists m1 (m2(k \<mapsto> ys)) = (append_lists m1 m2)(k \<mapsto> xs @ ys)"
  by (auto simp: append_lists_def fun_eq_iff split: option.splits)

lemma dom_append_lists: "dom (append_lists m1 m2) = dom m1 \<inter> dom m2"
  by (auto simp: append_lists_def dom_def split: option.splits)

lemma same_keys_merge: "same_keys s d \<Longrightarrow> same_keys s (merge s d)"
  by (auto simp: same_keys_def merge_def dom_append_lists)

lemma merge_simps [simp]:
  "gc (merge s d) = gc s @ gc d"
  "signal (merge s d) = append_lists (signal s) (signal d)"
  "all_TFBS (merge s d) = append_lists (all_TFBS s) (all_TFBS d)"
  "logged (merge s d) = logged s @ logged d"
  by (simp_all add: merge_def)

lemma merge_updates:
  "merge s (d\<lparr>logged := l\<rparr>) = (merge s d)\<lparr>logged := logged s @ l\<rparr>"
  "merge s (d\<lparr>gc := g\<rparr>) = (merge s d)\<lparr>gc := gc s @ g\<rparr>"
  "merge s (d\<lparr>signal := m\<rparr>) = (merge s d)\<lparr>signal := append_lists (signal s) m\<rparr>"
  "merge s (d\<lparr>all_TFBS := m'\<rparr>) = (merge s d)\<lparr>all_TFBS := append_lists (all_TFBS s) m'\<rparr>"
  by (simp_all add: merge_def)

text \<open>Each step on a merged state is the step on the second state, merged.\<close>

lemma collect_merge:
  assumes "same_keys s d"
  shows "collect (merge s d) site = map_sum id (merge s) (collect d site)"
proof (cases "all_TFBS d (name site)")
  case None
  then show ?thesis by (simp add: collect_def append_lists_def split: option.splits)
next
  case (Some ys)
  then have "name site \<in> dom (all_TFBS s)" using assms by (auto simp: same_keys_def)
  then obtain xs where xs: "all_TFBS s (name site) = Some xs" by blast
  show ?thesis
    using Some xs
    by (simp add: collect_def merge_updates append_lists_upd) (simp add: append_lists_def)
qed

lemma collect_keys: "collect d site = Inr d' \<Longrightarrow> same_keys s d \<Longrightarrow> same_keys s d'"
  by (auto simp: collect_def same_keys_def split: option.splits if_splits)

lemma read_footprints_merge:
  assumes "same_keys s d"
  shows "read_footprints env r ps (fp, merge s d) c =
           map_sum id (\<lambda>(fp', d'). (fp', merge s d')) (read_footprints env r ps (fp, d) c)"
proof (cases "bw_values env c r")
  case None
  then show ?thesis by (simp add: read_footprints_def merge_updates)
next
  case (Some vals)
  show ?thesis
  proof (cases "for_each (\<lambda>pos. item (nan_to_num vals) (int pos)) ps")
    case (Inl e)
    then show ?thesis by (simp add: read_footprints_def Some Let_def)
  next
    case (Inr sampled)
    show ?thesis
    proof (cases "signal d c")
      case None
      then show ?thesis
        by (simp add: read_footprints_def Some Let_def Inr append_lists_def split: option.splits)
    next
      case d: (Some ys)
      then have "c \<in> dom (signal s)" using assms by (auto simp: same_keys_def)
      then obtain xs where xs: "signal s c = Some xs" by blast
      show ?thesis
        using d xs
        by (simp add: read_footprints_def Some Let_def Inr merge_updates append_lists_upd)
           (simp add: append_lists_def)
    qed
  qed
qed

lemma read_footprints_keys:
  "read_footprints env r ps (fp, d) c = Inr (fp', d') \<Longrightarrow> same_keys s d \<Longrightarrow> same_keys s d'"
  by (auto simp: read_footprints_def same_keys_def Let_def and_then_eq_Inr split: option.splits if_splits)

lemma same_keys_gc: "same_keys s d \<Longrightarrow> same_keys s (d\<lparr>gc := g\<rparr>)"
  by (simp add: same_keys_def)

text \<open>A loop on a merged state is the loop on the second state, merged.\<close>

lemma for_loop_merge:
  assumes step: "\<And>d x. P d \<Longrightarrow> body (L d) x = map_sum id L (body d x)"
    and keep: "\<And>d x d'. P d \<Longrightarrow> body d x = Inr d' \<Longrightarrow> P d'"
    and "P d"
  shows "for_loop body (L d) xs = map_sum id L (for_loop body d xs)"
  using assms(3)
proof (induction xs arbitrary: d)
  case Nil
  then show ?case by simp
next
  case (Cons x xs)
  show ?case
  proof (cases "body d x")
    case (Inl e)
    then show ?thesis using step[OF Cons.prems, of x] by simp
  next
    case (Inr d')
    then show ?thesis
      using step[OF Cons.prems, of x] Cons.IH[OF keep[OF Cons.prems Inr]] by simp
  qed
qed

lemma for_loop_append:
  "for_loop body s (xs @ ys) = and_then (for_loop body s xs) (\<lambda>s'. for_loop body s' ys)"
  by (induction xs arbitrary: s) (simp_all split: sum.splits)

lemma collect_loop_merge:
  "same_keys s d \<Longrightarrow> for_loop collect (merge s d) sites = map_sum id (merge s) (for_loop collect d sites)"
  by (rule for_loop_merge[where P = "same_keys s"]) (auto intro: collect_merge collect_keys)

lemma collect_loop_keys:
  "for_loop collect d sites = Inr d' \<Longrightarrow> same_keys s d \<Longrightarrow> same_keys s d'"
  by (rule for_loop_invariant[where P = "same_keys s"]) (auto intro: collect_keys)

lemma read_loop_merge:
  assumes "same_keys s d"
  shows "for_loop (read_footprints env r ps) (fp, merge s d) cs =
           map_sum id (\<lambda>(fp', d'). (fp', merge s d')) (for_loop (read_footprints env r ps) (fp, d) cs)"
proof -
  have "for_loop (read_footprints env r ps) ((\<lambda>(fp', d'). (fp', merge s d')) (fp, d)) cs =
          map_sum id (\<lambda>(fp', d'). (fp', merge s d')) (for_loop (read_footprints env r ps) (fp, d) cs)"
    by (rule for_loop_merge[where P = "\<lambda>(fp', d'). same_keys s d'"])
       (use assms in \<open>auto intro: read_footprints_merge read_footprints_keys\<close>)
  then show ?thesis by simp
qed

lemma read_loop_keys:
  assumes "for_loop (read_footprints env r ps) (fp, d) cs = Inr (fp', d')" and "same_keys s d"
  shows "same_keys s d'"
proof -
  have "(\<lambda>(fp', d'). same_keys s d') (fp', d')"
    by (rule for_loop_invariant[OF assms(1), where P = "\<lambda>(fp', d'). same_keys s d'"])
       (use assms(2) in \<open>auto intro: read_footprints_keys\<close>)
  then show ?thesis by simp
qed

lemma scan_region_merge:
  assumes "same_keys s d"
  shows "scan_region env (merge s d) r = map_sum id (merge s) (scan_region env d r)"
proof (cases "rand_positions env r")
  case (Inl e)
  then show ?thesis by (simp add: scan_region_def)
next
  case ps: (Inr ps)
  show ?thesis
  proof (cases "for_loop (read_footprints env r ps) (Map.empty, d) (conditions env)")
    case (Inl e)
    then show ?thesis by (simp add: scan_region_def ps read_loop_merge[OF assms])
  next
    case (Inr p)
    obtain fp d1 where p: "p = (fp, d1)" by (cases p)
    have k: "same_keys s d1" using read_loop_keys[OF Inr[unfolded p] assms] .
    show ?thesis
    proof (cases "rolling_gc env r")
      case (Inl e)
      then show ?thesis by (simp add: scan_region_def ps read_loop_merge[OF assms] Inr p)
    next
      case g: (Inr g)
      show ?thesis
      proof (cases "for_each (\<lambda>pos. item (slice g (Some extend_bp) (Some (- extend_bp))) (int pos)) ps")
        case (Inl e)
        then show ?thesis by (simp add: scan_region_def ps read_loop_merge[OF assms] Inr p g)
      next
        case sampled: (Inr sampled)
        show ?thesis
        proof (cases "for_each (annotate env r (slice g (Some extend_bp) (Some (- extend_bp))) fp) (scan_sequence env r)")
          case (Inl e)
          then show ?thesis
            by (simp add: scan_region_def ps read_loop_merge[OF assms] Inr p g sampled)
        next
          case sites: (Inr sites)
          have "for_loop collect (merge s (d1\<lparr>gc := gc d1 @ sampled\<rparr>)) sites =
                  map_sum id (merge s) (for_loop collect (d1\<lparr>gc := gc d1 @ sampled\<rparr>) sites)"
            by (rule collect_loop_merge[OF same_keys_gc[OF k]])
          then show ?thesis
            by (simp add: scan_region_def ps read_loop_merge[OF assms] Inr p g sampled sites merge_updates)
        qed
      qed
    qed
  qed
qed

lemma scan_region_keys:
  assumes "scan_region env d r = Inr d'" and "same_keys s d"
  shows "same_keys s d'"
proof -
  from assms(1) obtain ps fp d1 g sampled sites where
    "for_loop (read_footprints env r ps) (Map.empty, d) (conditions env) = Inr (fp, d1)"
    "for_loop collect (d1\<lparr>gc := gc d1 @ sampled\<rparr>) sites = Inr d'"
    by (auto simp: scan_region_def and_then_eq_Inr Let_def)
  then show ?thesis
    using read_loop_keys[OF _ assms(2)] collect_loop_keys same_keys_gc by blast
qed

lemma scan_regions_merge:
  "same_keys s d \<Longrightarrow>
   for_loop (scan_region env) (merge s d) rs = map_sum id (merge s) (for_loop (scan_region env) d rs)"
  by (rule for_loop_merge[where P = "same_keys s"]) (auto intro: scan_region_merge scan_region_keys)

lemma scan_regions_keys:
  "for_loop (scan_region env) d rs = Inr d' \<Longrightarrow> same_keys s d \<Longrightarrow> same_keys s d'"
  by (rule for_loop_invariant[where P = "same_keys s"]) (auto intro: scan_region_keys)

subsection \<open>The initial state is neutral\<close>

lemma map_of_const:
  "map_of (map (\<lambda>k. (k, v)) ks) k = (if k \<in> set ks then Some v else None)"
  by (induction ks) auto

lemma initial_fields [simp]:
  "gc (initial_state env) = []"
  "logged (initial_state env) = []"
  "signal (initial_state env) c = (if c \<in> set (conditions env) then Some [] else None)"
  "all_TFBS (initial_state env) TF = (if TF \<in> set (motif_names env) then Some [] else None)"
  by (simp_all add: initial_state_def map_of_const)

lemma append_lists_empty:
  assumes "dom m1 = dom m0" and "\<And>k. k \<in> dom m0 \<Longrightarrow> m0 k = Some []"
  shows "append_lists m1 m0 = m1"
proof
  fix k
  show "append_lists m1 m0 k = m1 k"
  proof (cases "m1 k")
    case None
    then show ?thesis by (simp add: append_lists_def)
  next
    case (Some xs)
    then have "k \<in> dom m0" using assms(1) by auto
    then show ?thesis using Some assms(2) by (simp add: append_lists_def)
  qed
qed

lemma merge_initial:
  assumes "same_keys s (initial_state env)"
  shows "merge s (initial_state env) = s"
proof -
  have "append_lists (signal s) (signal (initial_state env)) = signal s"
    by (rule append_lists_empty) (use assms in \<open>auto simp: same_keys_def split: if_splits\<close>)
  moreover have "append_lists (all_TFBS s) (all_TFBS (initial_state env)) = all_TFBS s"
    by (rule append_lists_empty) (use assms in \<open>auto simp: same_keys_def split: if_splits\<close>)
  ultimately show ?thesis by (simp add: merge_def)
qed

lemma same_keys_refl [simp]: "same_keys s s"
  by (simp add: same_keys_def)

lemma same_keys_sym: "same_keys s d \<Longrightarrow> same_keys d s"
  by (simp add: same_keys_def)

lemma same_keys_trans: "same_keys s d \<Longrightarrow> same_keys d e \<Longrightarrow> same_keys s e"
  by (simp add: same_keys_def)

lemma values_of_append_lists:
  "dom m1 = dom m2 \<Longrightarrow> values_of (append_lists m1 m2) k = values_of m1 k @ values_of m2 k"
  by (cases "m1 k"; cases "m2 k") (auto simp: values_of_def append_lists_def)

subsection \<open>A scan of several regions is the scans of the regions, merged\<close>

lemma scan_regions_from:
  assumes "same_keys s (initial_state env)"
  shows "for_loop (scan_region env) s rs =
           map_sum id (merge s) (for_loop (scan_region env) (initial_state env) rs)"
  using scan_regions_merge[OF assms, of env rs] merge_initial[OF assms] by simp

lemma scan_regions_Cons:
  "for_loop (scan_region env) (initial_state env) (r # rs) =
     and_then (scan_region env (initial_state env) r) (\<lambda>d.
       map_sum id (merge d) (for_loop (scan_region env) (initial_state env) rs))"
proof (cases "scan_region env (initial_state env) r")
  case (Inl e)
  then show ?thesis by simp
next
  case (Inr d)
  have "same_keys d (initial_state env)"
    using scan_region_keys[OF Inr same_keys_refl] by (rule same_keys_sym)
  from scan_regions_from[OF this, of rs] show ?thesis using Inr by simp
qed

lemma scan_regions_initial_keys:
  "for_loop (scan_region env) (initial_state env) rs = Inr s \<Longrightarrow> same_keys (initial_state env) s"
  by (rule scan_regions_keys[OF _ same_keys_refl])

lemma scan_regions_succeed:
  assumes "\<And>r. r \<in> set rs \<Longrightarrow> \<exists>d. scan_region env (initial_state env) r = Inr d"
  shows "\<exists>s. for_loop (scan_region env) (initial_state env) rs = Inr s"
  using assms
proof (induction rs)
  case Nil
  then show ?case by simp
next
  case (Cons r rs)
  obtain d where d: "scan_region env (initial_state env) r = Inr d"
    using Cons.prems by auto
  obtain s1 where s1: "for_loop (scan_region env) (initial_state env) rs = Inr s1"
    using Cons by auto
  show ?case unfolding scan_regions_Cons by (simp add: d s1)
qed

subsection \<open>The messages sent after the regions\<close>

lemma set_dict_keys [simp]: "set (dict_keys ks) = set ks"
  by (simp add: dict_keys_def)

lemma send_loop:
  assumes "for_loop (send_sites env m) (p, g) TFs = Inr (p', g')"
  shows "p' = p @ map (\<lambda>TF. (TF, TF, as_bed env (resolve_overlaps env (values_of m TF)))) TFs"
  using assms
proof (induction TFs arbitrary: p g)
  case Nil
  then show ?case by simp
next
  case (Cons TF TFs)
  from Cons.prems obtain acc where
    step: "send_sites env m (p, g) TF = Inr acc" and
    rest: "for_loop (send_sites env m) acc TFs = Inr (p', g')"
    by (auto split: sum.splits)
  from step obtain sites where
    sites: "m TF = Some sites" and
    acc: "acc = (p @ [(TF, TF, as_bed env (resolve_overlaps env sites))], g @ resolve_overlaps env sites)"
    by (auto simp: send_sites_def Let_def split: option.splits if_splits)
  show ?case using Cons.IH[OF rest[unfolded acc]] sites by (simp add: values_of_def)
qed

lemma send_loop_succeeds:
  assumes "set TFs \<subseteq> dom m" and "set TFs \<subseteq> set (queue_names env)"
  shows "\<exists>out. for_loop (send_sites env m) acc TFs = Inr out"
  using assms
proof (induction TFs arbitrary: acc)
  case Nil
  then show ?case by simp
next
  case (Cons TF TFs)
  obtain p g where acc: "acc = (p, g)" by (cases acc)
  obtain sites where "m TF = Some sites" using Cons.prems(1) by auto
  then show ?case
    using Cons.prems Cons.IH by (simp add: acc send_sites_def Let_def)
qed

lemma send_loop_queues:
  assumes "for_loop (send_sites env m) acc TFs = Inr out"
  shows "set TFs \<subseteq> set (queue_names env)"
  using assms
proof (induction TFs arbitrary: acc)
  case Nil
  then show ?case by simp
next
  case (Cons TF TFs)
  obtain p g where acc: "acc = (p, g)" by (cases acc)
  from Cons.prems obtain acc' where
    step: "send_sites env m (p, g) TF = Inr acc'" and
    rest: "for_loop (send_sites env m) acc' TFs = Inr out"
    by (auto simp: acc split: sum.splits)
  from step have "TF \<in> set (queue_names env)"
    by (auto simp: send_sites_def Let_def split: option.splits if_splits)
  then show ?case using Cons.IH[OF rest] by simp
qed

lemma scan_and_score_Inr:
  assumes "scan_and_score env rs = Inr out"
  obtains s sent global_TFBS where
    "for_loop (scan_region env) (initial_state env) rs = Inr s"
    "for_loop (send_sites env (all_TFBS s)) ([], []) (dict_keys (motif_names env)) = Inr (sent, global_TFBS)"
    "background_gc out = gc s" "background_signal out = signal s" "puts out = sent"
    "errors out = logged s"
proof -
  from assms have "\<exists>s sent global_TFBS.
    for_loop (scan_region env) (initial_state env) rs = Inr s \<and>
    for_loop (send_sites env (all_TFBS s)) ([], []) (dict_keys (motif_names env)) = Inr (sent, global_TFBS) \<and>
    background_gc out = gc s \<and> background_signal out = signal s \<and> puts out = sent \<and>
    errors out = logged s"
    by (auto simp: scan_and_score_def and_then_eq_Inr)
  then show ?thesis using that by blast
qed

lemma scan_and_score_succeeds:
  assumes "for_loop (scan_region env) (initial_state env) rs = Inr s"
    and "set (motif_names env) \<subseteq> set (queue_names env)"
  shows "\<exists>out. scan_and_score env rs = Inr out"
proof -
  have "dom (all_TFBS s) = dom (all_TFBS (initial_state env))"
    using scan_regions_initial_keys[OF assms(1)] by (simp add: same_keys_def)
  then have "set (dict_keys (motif_names env)) \<subseteq> dom (all_TFBS s)"
    by (auto simp: dom_def)
  then obtain sent where
    "for_loop (send_sites env (all_TFBS s)) ([], []) (dict_keys (motif_names env)) = Inr sent"
    using send_loop_succeeds[of "dict_keys (motif_names env)" "all_TFBS s" env "([], [])"] assms(2)
    by auto
  then show ?thesis
    by (cases sent) (simp add: scan_and_score_def assms(1))
qed

subsection \<open>What one region adds to the state\<close>

lemma named_append [simp]: "named TF (xs @ ys) = named TF xs @ named TF ys"
  by (simp add: named_def)

lemma collect_loop_fields:
  assumes "for_loop collect d sites = Inr d'"
  shows "gc d' = gc d \<and> signal d' = signal d \<and> logged d' = logged d \<and>
         (\<forall>TF. all_TFBS d' TF = map_option (\<lambda>xs. xs @ named TF sites) (all_TFBS d TF))"
  using assms
proof (induction sites arbitrary: d)
  case Nil
  then show ?case by (simp add: named_def option.map_ident)
next
  case (Cons site sites)
  from Cons.prems obtain d1 where
    step: "collect d site = Inr d1" and rest: "for_loop collect d1 sites = Inr d'"
    by (auto split: sum.splits)
  from step obtain xs where
    xs: "all_TFBS d (name site) = Some xs" and
    d1: "d1 = d\<lparr>all_TFBS := (all_TFBS d)(name site \<mapsto> xs @ [site])\<rparr>"
    by (auto simp: collect_def split: option.splits)
  show ?case
    using Cons.IH[OF rest] xs by (auto simp: d1 named_def)
qed

lemma count_readable:
  "length (filter (\<lambda>c'. c' = c \<and> P c') cs) = (if P c then count_list cs c else 0)"
  by (induction cs) auto

lemma read_loop_fields:
  assumes "for_loop (read_footprints env r ps) (fp, d) cs = Inr (fp', d')"
  shows "gc d' = gc d \<and> all_TFBS d' = all_TFBS d \<and>
         fp' = (\<lambda>c. if c \<in> set cs
                     then (case bw_values env c r of None \<Rightarrow> fp c
                           | Some vals \<Rightarrow> Some (nan_to_num vals))
                     else fp c) \<and>
         (\<forall>c. length (values_of (signal d') c) =
                length (values_of (signal d) c) +
                length ps * length (filter (\<lambda>c'. c' = c \<and> bw_values env c' r \<noteq> None) cs))"
  using assms
proof (induction cs arbitrary: fp d)
  case Nil
  then show ?case by simp
next
  case (Cons c0 cs)
  from Cons.prems obtain fp1 d1 where
    step: "read_footprints env r ps (fp, d) c0 = Inr (fp1, d1)" and
    rest: "for_loop (read_footprints env r ps) (fp1, d1) cs = Inr (fp', d')"
    by (auto split: sum.splits)
  note IH = Cons.IH[OF rest]
  show ?case
  proof (cases "bw_values env c0 r")
    case None
    with step have e: "fp1 = fp" "d1 = d\<lparr>logged := logged d @ [r]\<rparr>"
      by (simp_all add: read_footprints_def)
    show ?thesis using IH[unfolded e] None by (auto simp: fun_eq_iff)
  next
    case (Some vals)
    with step obtain sampled bg where
      sampled: "for_each (\<lambda>pos. item (nan_to_num vals) (int pos)) ps = Inr sampled" and
      bg: "signal d c0 = Some bg" and
      fp1: "fp1 = fp(c0 \<mapsto> nan_to_num vals)" and
      d1: "d1 = d\<lparr>signal := (signal d)(c0 \<mapsto> bg @ sampled)\<rparr>"
      by (auto simp: read_footprints_def Let_def and_then_eq_Inr split: option.splits)
    have n: "length sampled = length ps" using sampled by (rule for_each_length)
    have v: "length (values_of (signal d1) c) =
               length (values_of (signal d) c) + (if c = c0 then length ps else 0)" for c
      using bg by (simp add: d1 values_of_def n)
    have f: "fp' = (\<lambda>c. if c \<in> set (c0 # cs)
                     then (case bw_values env c r of None \<Rightarrow> fp c
                           | Some vals \<Rightarrow> Some (nan_to_num vals))
                     else fp c)"
      using IH Some by (auto simp: fp1 fun_eq_iff split: option.splits)
    show ?thesis
    proof (intro conjI allI)
      show "gc d' = gc d" using IH by (simp add: d1)
      show "all_TFBS d' = all_TFBS d" using IH by (simp add: d1)
      show "fp' = (\<lambda>c. if c \<in> set (c0 # cs)
                     then (case bw_values env c r of None \<Rightarrow> fp c
                           | Some vals \<Rightarrow> Some (nan_to_num vals))
                     else fp c)"
        by (rule f)
    next
      fix c
      have "length (values_of (signal d') c) =
              length (values_of (signal d1) c) +
              length ps * length (filter (\<lambda>c'. c' = c \<and> bw_values env c' r \<noteq> None) cs)"
        using IH by blast
      then show "length (values_of (signal d') c) =
              length (values_of (signal d) c) +
              length ps * length (filter (\<lambda>c'. c' = c \<and> bw_values env c' r \<noteq> None) (c0 # cs))"
        using v[of c] Some by (auto simp: algebra_simps)
    qed
  qed
qed

lemma footprints_from_empty:
  "(\<lambda>c. if c \<in> set (conditions env)
        then (case bw_values env c r of None \<Rightarrow> Map.empty c
              | Some vals \<Rightarrow> Some (nan_to_num vals))
        else Map.empty c) = footprints_of env r"
  by (auto simp: footprints_of_def fun_eq_iff split: option.splits)

lemma scan_region_fields:
  assumes "scan_region env d r = Inr d'"
  obtains ps sites where
    "rand_positions env r = Inr ps" "region_TFBS env r = Inr sites"
    "length (gc d') = length (gc d) + length ps"
    "\<And>TF. all_TFBS d' TF = map_option (\<lambda>xs. xs @ named TF sites) (all_TFBS d TF)"
    "\<And>c. length (values_of (signal d') c) =
            length (values_of (signal d) c) +
            length ps * (if bw_values env c r = None then 0 else count_list (conditions env) c)"
proof -
  from assms obtain ps fp d1 g sampled sites where
    ps: "rand_positions env r = Inr ps" and
    reads: "for_loop (read_footprints env r ps) (Map.empty, d) (conditions env) = Inr (fp, d1)" and
    g: "rolling_gc env r = Inr g" and
    sampled: "for_each (\<lambda>pos. item (slice g (Some extend_bp) (Some (- extend_bp))) (int pos)) ps
                = Inr sampled" and
    sites: "for_each (annotate env r (slice g (Some extend_bp) (Some (- extend_bp))) fp)
              (scan_sequence env r) = Inr sites" and
    collected: "for_loop collect (d1\<lparr>gc := gc d1 @ sampled\<rparr>) sites = Inr d'"
    by (auto simp: scan_region_def and_then_eq_Inr Let_def)
  note r = read_loop_fields[OF reads]
  note c = collect_loop_fields[OF collected]
  have fp: "fp = footprints_of env r"
    using r footprints_from_empty[of env r] by simp
  have "region_TFBS env r = Inr sites"
    using sites by (simp add: region_TFBS_def g fp)
  moreover have "length (gc d') = length (gc d) + length ps"
    using c r for_each_length[OF sampled] by simp
  moreover have "all_TFBS d' TF = map_option (\<lambda>xs. xs @ named TF sites) (all_TFBS d TF)" for TF
    using c r by simp
  moreover have "length (values_of (signal d') c) =
            length (values_of (signal d) c) +
            length ps * (if bw_values env c r = None then 0 else count_list (conditions env) c)" for c
    using c r count_readable[of c "\<lambda>c'. bw_values env c' r \<noteq> None" "conditions env"] by simp
  ultimately show ?thesis using that ps by blast
qed

lemma scan_regions_TFBS:
  assumes "for_loop (scan_region env) d rs = Inr d'"
  shows "\<exists>found. for_each (region_TFBS env) rs = Inr found \<and>
           (\<forall>TF. all_TFBS d' TF = map_option (\<lambda>xs. xs @ named TF (concat found)) (all_TFBS d TF))"
  using assms
proof (induction rs arbitrary: d)
  case Nil
  then show ?case by (simp add: named_def option.map_ident)
next
  case (Cons r rs)
  from Cons.prems obtain d1 where
    step: "scan_region env d r = Inr d1" and rest: "for_loop (scan_region env) d1 rs = Inr d'"
    by (auto split: sum.splits)
  from Cons.IH[OF rest] obtain found where
    found: "for_each (region_TFBS env) rs = Inr found" and
    more: "\<And>TF. all_TFBS d' TF = map_option (\<lambda>xs. xs @ named TF (concat found)) (all_TFBS d1 TF)"
    by blast
  show ?case
  proof (rule scan_region_fields[OF step])
    fix sites
    assume sites: "region_TFBS env r = Inr sites"
      and one: "\<And>TF. all_TFBS d1 TF = map_option (\<lambda>xs. xs @ named TF sites) (all_TFBS d TF)"
    have "for_each (region_TFBS env) (r # rs) = Inr (sites # found)"
      by (simp add: sites found)
    moreover have "all_TFBS d' TF =
        map_option (\<lambda>xs. xs @ named TF (concat (sites # found))) (all_TFBS d TF)" for TF
      by (simp add: more one option.map_comp comp_def)
    ultimately show ?case by blast
  qed
qed

section \<open>The example scan\<close>

lemma example_lengths:
  "get_length (example_region 100 110) = 10"
  "get_length (example_region 300 320) = 20"
  "sample_size 10 = 1" "sample_size 20 = 1"
  by (simp_all add: get_length_def example_region_def sample_size_def int_quotient_def rand_window_def)

lemma example_positions:
  "rand_positions example_scanner (example_region 100 110) = Inr [9]"
  "rand_positions example_scanner (example_region 300 320) = Inr [19]"
  by (simp_all add: rand_positions_def example_lengths random_sample_def example_scanner_def)

lemma item_replicate: "0 \<le> i \<Longrightarrow> i < int n \<Longrightarrow> item (replicate n x) i = Inr x"
  by (simp add: item_def position_def)

lemma slice_replicate:
  "slice (replicate (n + 500) x) (Some extend_bp) (Some (- extend_bp)) = replicate n x"
  by (simp add: slice_def slice_bound_def extend_bp_def gc_window_def)

lemma example_gc:
  "rolling_gc example_scanner (example_region 100 110) = Inr (replicate (10 + 500) (1 / 2))"
  "rolling_gc example_scanner (example_region 300 320) = Inr (replicate (20 + 500) (1 / 4))"
  by (simp_all add: example_scanner_def get_length_def extend_bp_def gc_window_def example_region_def)

lemma example_tracks:
  "bw_values example_scanner c (example_region 100 110) = Some (replicate 10 (Some 1))"
  "bw_values example_scanner c (example_region 300 320) = Some (replicate 20 None)"
  by (simp_all add: example_scanner_def get_length_def example_region_def)

lemma example_initial:
  "initial_state example_scanner = \<lparr>gc = [], signal = [''WT'' \<mapsto> []], all_TFBS = [''M'' \<mapsto> []], logged = []\<rparr>"
  by (simp add: initial_state_def example_scanner_def)

lemma example_settings:
  "conditions example_scanner = [''WT'']" "motif_names example_scanner = [''M'']"
  "queue_names example_scanner = [''M'']"
  "score_format example_scanner 1 = ''1.00000''" "score_format example_scanner 0 = ''0.00000''"
  "scan_sequence example_scanner (example_region 100 110) =
     [example_site 102 106 8 ''+'', example_site 104 108 9 ''-'']"
  "scan_sequence example_scanner (example_region 300 320) = [example_site 303 307 7 ''+'']"
  by (simp_all add: example_scanner_def example_region_def)

lemma example_annotate:
  assumes "0 \<le> x - a + int_quotient (y - x) 2" and "x - a + int_quotient (y - x) 2 < int n"
  shows "annotate example_scanner (example_region a b) (replicate n g)
           [''WT'' \<mapsto> replicate n v] (example_site x y sc st) =
         Inr (annotated_site (example_site x y sc st) (example_region a b) g
                (score_format example_scanner v))"
  using assms
  by (simp add: annotate_def Let_def example_site_def example_region_def item_replicate
      example_settings(1) annotated_site_def)

lemma example_scan_first:
  "scan_region example_scanner (initial_state example_scanner) (example_region 100 110) =
     Inr \<lparr>gc = [1 / 2], signal = [''WT'' \<mapsto> [1]],
          all_TFBS = [''M'' \<mapsto>
            [annotated_site (example_site 102 106 8 ''+'') (example_region 100 110) (1 / 2) ''1.00000'',
             annotated_site (example_site 104 108 9 ''-'') (example_region 100 110) (1 / 2) ''1.00000'']],
          logged = []\<rparr>"
  unfolding scan_region_def example_positions and_then_Inr example_settings example_gc slice_replicate example_initial
  by (simp add: read_footprints_def example_tracks nan_to_num_def item_replicate Let_def
      example_annotate int_quotient_def example_settings collect_def)
     (simp add: annotated_site_def example_site_def)

lemma example_scan_second:
  "scan_region example_scanner (initial_state example_scanner) (example_region 300 320) =
     Inr \<lparr>gc = [1 / 4], signal = [''WT'' \<mapsto> [0]],
          all_TFBS = [''M'' \<mapsto>
            [annotated_site (example_site 303 307 7 ''+'') (example_region 300 320) (1 / 4) ''0.00000'']],
          logged = []\<rparr>"
  unfolding scan_region_def example_positions and_then_Inr example_settings example_gc slice_replicate example_initial
  by (simp add: read_footprints_def example_tracks nan_to_num_def item_replicate Let_def
      example_annotate int_quotient_def example_settings collect_def)
     (simp add: annotated_site_def example_site_def)

subsection \<open>The scan of the two regions of the example\<close>

lemma append_lists_single: "append_lists [k \<mapsto> xs] [k \<mapsto> ys] = [k \<mapsto> xs @ ys]"
  by (auto simp: append_lists_def fun_eq_iff)

lemma example_scan_regions:
  "for_loop (scan_region example_scanner) (initial_state example_scanner)
     [example_region 100 110, example_region 300 320] =
   Inr \<lparr>gc = [1 / 2, 1 / 4], signal = [''WT'' \<mapsto> [1, 0]],
        all_TFBS = [''M'' \<mapsto> example_found_first @ example_found_second], logged = []\<rparr>"
proof -
  have second: "for_loop (scan_region example_scanner) (initial_state example_scanner)
      [example_region 300 320] =
    Inr \<lparr>gc = [1 / 4], signal = [''WT'' \<mapsto> [0]],
         all_TFBS = [''M'' \<mapsto> example_found_second], logged = []\<rparr>"
    apply (subst scan_regions_Cons)
    apply (simp only: example_scan_second and_then_Inr for_loop.simps)
    apply (simp add: example_initial merge_def append_lists_single example_found_second_def)
    done
  show ?thesis
    apply (subst scan_regions_Cons)
    apply (simp only: second example_scan_first and_then_Inr)
    apply (simp add: merge_def append_lists_single example_found_first_def)
    done
qed

lemma example_coordinates: "str_int 104 = ''104''" "str_int 108 = ''108''" "str_int 303 = ''303''"
  "str_int 307 = ''307''"
  by code_simp+

lemma example_bed_lines:
  "bed_line (annotated_site (example_site 104 108 9 ''-'') r g sc) = example_bed_first"
  "bed_line (annotated_site (example_site 303 307 7 ''+'') r g sc) = example_bed_second"
  by (simp_all add: bed_line_def annotated_site_def example_site_def example_coordinates
      example_bed_first_def example_bed_second_def)

lemma example_resolve:
  "resolve_by_score (example_found_first @ example_found_second) =
     [annotated_site (example_site 104 108 9 ''-'') (example_region 100 110) (1 / 2) ''1.00000'',
      annotated_site (example_site 303 307 7 ''+'') (example_region 300 320) (1 / 4) ''0.00000'']"
  "resolve_by_score example_found_first =
     [annotated_site (example_site 104 108 9 ''-'') (example_region 100 110) (1 / 2) ''1.00000'']"
  "resolve_by_score example_found_second = example_found_second"
  by (simp_all add: resolve_by_score_def example_found_first_def example_found_second_def
      annotated_site_def example_site_def keep_best_def site_overlap_def)

lemma example_scan:
  "scan_and_score example_scanner [example_region 100 110, example_region 300 320] =
     Inr example_result"
  unfolding scan_and_score_def example_scan_regions and_then_Inr
  by (simp add: example_settings dict_keys_def send_sites_def example_scanner_def
      example_resolve example_bed_lines example_result_def)

subsection \<open>The occurrences of the example, region by region\<close>

lemma example_footprints:
  "footprints_of example_scanner (example_region 100 110) = [''WT'' \<mapsto> replicate 10 1]"
  "footprints_of example_scanner (example_region 300 320) = [''WT'' \<mapsto> replicate 20 0]"
  by (auto simp: footprints_of_def example_settings example_tracks nan_to_num_def fun_eq_iff)

lemma example_region_TFBS:
  "region_TFBS example_scanner (example_region 100 110) = Inr example_found_first"
  "region_TFBS example_scanner (example_region 300 320) = Inr example_found_second"
  unfolding region_TFBS_def example_gc and_then_Inr slice_replicate example_footprints
    example_settings
  by (simp_all add: example_annotate int_quotient_def example_settings
      example_found_first_def example_found_second_def)

lemma example_batches:
  "batches_per_region example_scanner [example_region 100 110, example_region 300 320] =
     Inr [(''M'', ''M'', example_bed_first), (''M'', ''M'', example_bed_second)]"
proof -
  have n: "named ''M'' example_found_first = example_found_first"
    "named ''M'' example_found_second = example_found_second"
    by (simp_all add: named_def example_found_first_def example_found_second_def
        annotated_site_def example_site_def)
  have b: "as_bed example_scanner (resolve_overlaps example_scanner example_found_first)
             = example_bed_first"
    "as_bed example_scanner (resolve_overlaps example_scanner example_found_second)
             = example_bed_second"
    by (simp_all add: example_scanner_def example_resolve example_bed_lines)
       (simp add: example_found_second_def example_bed_lines)
  show ?thesis
    by (simp add: batches_per_region_def example_region_TFBS example_settings dict_keys_def n b)
qed

lemma example_state: "scan_region example_scanner (initial_state example_scanner)
    (example_region 100 110) = Inr example_state_first"
  by (simp add: example_scan_first example_state_first_def example_found_first_def)

lemma example_scan_short:
  "scan_and_score example_scanner [example_region 100 110] =
     Inr \<lparr>background_gc = [1 / 2], background_signal = [''WT'' \<mapsto> [1]], overlap = (),
          puts = [(''M'', ''M'', example_bed_first)], errors = []\<rparr>"
proof -
  have b: "as_bed example_scanner (resolve_overlaps example_scanner example_found_first)
             = example_bed_first"
    by (simp add: example_scanner_def example_resolve example_bed_lines)
  have "for_loop (scan_region example_scanner) (initial_state example_scanner)
      [example_region 100 110] = Inr example_state_first"
    by (simp add: example_state)
  then show ?thesis
    unfolding scan_and_score_def
    by (simp add: example_state_first_def example_settings dict_keys_def send_sites_def b)
qed

section \<open>One message for each motif, after the last region\<close>

text \<open>
  C7, as the code has it. The occurrences of all the regions of a call are collected
  motif by motif; after the last region, for every motif name, the occurrences of the
  motif from all the regions of the call are resolved once, and the resolved occurrences
  are put on the queue of the motif as one message. A call sends one message for each
  motif, whatever the number of its regions.
\<close>

theorem one_batch_per_motif:
  assumes "scan_and_score env regions = Inr out"
  shows "\<exists>found. for_each (region_TFBS env) regions = Inr found \<and>
           puts out =
             map (\<lambda>TF. (TF, TF, as_bed env (resolve_overlaps env (named TF (concat found)))))
               (dict_keys (motif_names env))"
proof -
  from assms obtain s sent global_TFBS where
    s: "for_loop (scan_region env) (initial_state env) regions = Inr s" and
    sent: "for_loop (send_sites env (all_TFBS s)) ([], []) (dict_keys (motif_names env))
             = Inr (sent, global_TFBS)" and
    out: "puts out = sent"
    by (rule scan_and_score_Inr)
  from scan_regions_TFBS[OF s] obtain found where
    found: "for_each (region_TFBS env) regions = Inr found" and
    sites: "\<And>TF. all_TFBS s TF =
              map_option (\<lambda>xs. xs @ named TF (concat found)) (all_TFBS (initial_state env) TF)"
    by blast
  have "values_of (all_TFBS s) TF = named TF (concat found)"
    if "TF \<in> set (dict_keys (motif_names env))" for TF
    using that by (simp add: sites values_of_def)
  then have "map (\<lambda>TF. (TF, TF, as_bed env (resolve_overlaps env (values_of (all_TFBS s) TF))))
               (dict_keys (motif_names env)) =
             map (\<lambda>TF. (TF, TF, as_bed env (resolve_overlaps env (named TF (concat found)))))
               (dict_keys (motif_names env))"
    by simp
  then show ?thesis
    using send_loop[OF sent] found by (simp add: out)
qed

theorem one_batch_per_motif_witness:
  "\<exists>found.
     for_each (region_TFBS example_scanner) [example_region 100 110, example_region 300 320]
       = Inr found \<and>
     puts example_result =
       map (\<lambda>TF. (TF, TF, as_bed example_scanner
                            (resolve_overlaps example_scanner (named TF (concat found)))))
         (dict_keys (motif_names example_scanner))"
  using one_batch_per_motif[OF example_scan] .

text \<open>
  The scan of the two regions of the example sends one message for the motif, with the
  occurrences of both regions; region by region, there would be two.
\<close>

theorem batches_per_region_counterexample:
  "map_sum id puts
     (scan_and_score example_scanner [example_region 100 110, example_region 300 320]) =
     Inr [(''M'', ''M'', example_bed_first @ example_bed_second)] \<and>
   batches_per_region example_scanner [example_region 100 110, example_region 300 320] =
     Inr [(''M'', ''M'', example_bed_first), (''M'', ''M'', example_bed_second)] \<and>
   map_sum id puts
     (scan_and_score example_scanner [example_region 100 110, example_region 300 320]) \<noteq>
   batches_per_region example_scanner [example_region 100 110, example_region 300 320]"
  by (simp add: example_scan example_batches) (simp add: example_result_def)

section \<open>A motif whose task fails is reported and skipped\<close>

lemma to_csv_not_raised:
  "to_csv fs path h t names = (evs, Inr u) \<Longrightarrow> to_csv_raises fs path = None"
  by (auto simp: to_csv_def split: sum.splits option.splits)

lemma run_each_Inr:
  assumes "run_each f xs = (evs, Inr u)" and "x \<in> set xs"
  shows "\<exists>evs'. f x = (evs', Inr ())"
  using assms
proof (induction xs arbitrary: evs)
  case Nil
  then show ?case by simp
next
  case (Cons y ys)
  from Cons.prems(1) obtain ev1 ev2 where
    y: "f y = (ev1, Inr ())" and ys: "run_each f ys = (ev2, Inr u)"
    by (auto simp: run_then_eq_Inr)
  show ?case
    using Cons.prems(2) y Cons.IH[OF ys] by auto
qed

lemma write_subset_not_raised:
  assumes "write_subset fs dir TF a header t (condition, state) = (evs, Inr u)"
  shows "to_csv_raises fs (os_path_join dir [TF @ ''_'' @ condition @ ''_'' @ state @ ''.bed''])
           = None"
  using assms
  by (auto simp: write_subset_def Let_def split: sum.splits dest: to_csv_not_raised)

lemma write_excel_not_raised:
  "write_excel fs TF path t names = (evs, Inr u) \<Longrightarrow> \<not> to_excel_raises fs path"
  by (auto simp: write_excel_def Let_def split: sum.splits if_splits)

lemma load_table_read:
  "load_table fs a filename = Inr t \<Longrightarrow> \<exists>arr. genfromtxt fs filename = Inr arr"
  by (auto simp: load_table_def and_then_eq_Inr)

text \<open>A call that returns its row has read its file and written every one of its tables.\<close>

lemma process_tfbs_returns:
  assumes "process_tfbs lib fs TF a params = (evs, Inr info)"
  shows "\<exists>arr. genfromtxt fs (tmp_file a TF) = Inr arr"
    and "\<And>path. path \<in> set (table_files a TF) \<Longrightarrow> to_csv_raises fs path = None"
    and "\<not> to_excel_raises fs (excel_file a TF)"
proof -
  from assms obtain t0 ts ev1 tsplit info2 ev2 tfinal ev3 ev4 where h:
    "load_table fs a (os_path_join (os_path_join (outdir a) [TF, ''beds'']) [TF @ ''.tmp'']) = Inr t0"
    "to_csv fs (os_path_join (os_path_join (outdir a) [TF, ''beds'']) [TF @ ''_all.bed'']) False ts
       (filter (\<lambda>col. col \<noteq> ''GC'') (columns t0)) = (ev1, Inr ())"
    "run_each (write_subset fs (os_path_join (outdir a) [TF, ''beds'']) TF a (columns t0) tsplit)
       (List.product (cond_names a) [''bound'', ''unbound'']) = (ev2, Inr ())"
    "to_csv fs (os_path_join (outdir a) [TF, TF @ ''_overview.txt'']) True tfinal
       (filter (\<lambda>col. col \<noteq> ''GC'') (columns tfinal)) = (ev3, Inr ())"
    "write_excel fs TF (os_path_join (outdir a) [TF, TF @ ''_overview.xlsx'']) tfinal
       (filter (\<lambda>col. col \<noteq> ''GC'') (columns tfinal)) = (ev4, Inr ())"
    by (rule process_tfbs_Inr)
  show "\<exists>arr. genfromtxt fs (tmp_file a TF) = Inr arr"
    using load_table_read[OF h(1)] by (simp add: tmp_file_def)
  show "\<not> to_excel_raises fs (excel_file a TF)"
    using write_excel_not_raised[OF h(5)] by (simp add: excel_file_def)
  show "to_csv_raises fs path = None" if "path \<in> set (table_files a TF)" for path
  proof -
    from that consider
      "path = os_path_join (os_path_join (outdir a) [TF, ''beds'']) [TF @ ''_all.bed'']"
      | cs where "cs \<in> set (List.product (cond_names a) [''bound'', ''unbound''])"
          "path = os_path_join (os_path_join (outdir a) [TF, ''beds''])
                    [TF @ ''_'' @ fst cs @ ''_'' @ snd cs @ ''.bed'']"
      | "path = os_path_join (outdir a) [TF, TF @ ''_overview.txt'']"
      unfolding table_files_def by (auto simp: case_prod_beta)
    then show ?thesis
    proof cases
      case 1
      then show ?thesis using to_csv_not_raised[OF h(2)] by simp
    next
      case 2
      from run_each_Inr[OF h(3) 2(1)] obtain evs' where
        "write_subset fs (os_path_join (outdir a) [TF, ''beds'']) TF a (columns t0) tsplit
           (fst cs, snd cs) = (evs', Inr ())"
        by auto
      from write_subset_not_raised[OF this] show ?thesis using 2(2) by simp
    next
      case 3
      then show ?thesis using to_csv_not_raised[OF h(4)] by simp
    qed
  qed
qed

text \<open>So a call whose file cannot be read or one of whose writes raises returns no row.\<close>

lemma failing_task:
  assumes "(\<exists>e. genfromtxt fs (tmp_file a TF) = Inl e) \<or>
           (\<exists>path \<in> set (table_files a TF). to_csv_raises fs path \<noteq> None) \<or>
           to_excel_raises fs (excel_file a TF)"
  shows "\<exists>evs e. process_tfbs lib fs TF a params = (evs, Inl e)"
proof (cases "process_tfbs lib fs TF a params")
  case (Pair evs result)
  show ?thesis
  proof (cases result)
    case (Inl e)
    then show ?thesis using Pair by simp
  next
    case (Inr info)
    then have r: "process_tfbs lib fs TF a params = (evs, Inr info)" using Pair by simp
    from process_tfbs_returns[OF r] assms show ?thesis by auto
  qed
qed

lemma unreadable_task:
  "genfromtxt fs (tmp_file a TF) = Inl e \<Longrightarrow> process_tfbs lib fs TF a params = ([], Inl e)"
  unfolding tmp_file_def by (rule unreadable_file)

subsection \<open>What the stage holds\<close>

lemma stage_overview:
  "overview (statistics_stage lib fs a params TFs) =
     concat (map (\<lambda>TF. returned_row TF (process_tfbs lib fs TF a params)) TFs)"
  by (induction TFs) (auto simp: Let_def returned_row_def split: prod.splits sum.splits)

lemma stage_reported:
  "(TF, e) \<in> set (reported (statistics_stage lib fs a params TFs)) \<longleftrightarrow>
     TF \<in> set TFs \<and> snd (process_tfbs lib fs TF a params) = Inl e"
  by (induction TFs) (auto simp: Let_def split: prod.splits sum.splits)

text \<open>
  C3. In a statistics stage that runs the task of every motif, logs the task that fails
  and skips its row: a motif whose temporary file cannot be read, or one of whose tables
  cannot be written by \<^verbatim>\<open>to_csv\<close>, or whose spreadsheet cannot be written, is reported with
  the exception that left its task (the exception of the read when the file cannot be
  read) and has no row in the overview; the overview holds the row of every motif whose
  own task returns one, those after the failed motif too.
\<close>

theorem failed_motif_is_skipped:
  assumes "TF \<in> set TFs"
    and "(\<exists>e. genfromtxt fs (tmp_file a TF) = Inl e) \<or>
         (\<exists>path \<in> set (table_files a TF). to_csv_raises fs path \<noteq> None) \<or>
         to_excel_raises fs (excel_file a TF)"
  shows "(\<exists>e. (TF, e) \<in> set (reported (statistics_stage lib fs a params TFs))) \<and>
         (\<forall>e. genfromtxt fs (tmp_file a TF) = Inl e \<longrightarrow>
               (TF, e) \<in> set (reported (statistics_stage lib fs a params TFs))) \<and>
         TF \<notin> fst ` set (overview (statistics_stage lib fs a params TFs)) \<and>
         overview (statistics_stage lib fs a params TFs) =
           concat (map (\<lambda>TF'. returned_row TF' (process_tfbs lib fs TF' a params)) TFs)"
proof -
  from failing_task[OF assms(2)] obtain evs e where
    task: "process_tfbs lib fs TF a params = (evs, Inl e)"
    by blast
  have "(TF, e) \<in> set (reported (statistics_stage lib fs a params TFs))"
    using assms(1) task by (simp add: stage_reported)
  moreover have "(TF, e') \<in> set (reported (statistics_stage lib fs a params TFs))"
    if "genfromtxt fs (tmp_file a TF) = Inl e'" for e'
    using assms(1) unreadable_task[OF that] by (simp add: stage_reported)
  moreover have "TF \<notin> fst ` set (overview (statistics_stage lib fs a params TFs))"
    using task by (auto simp: stage_overview returned_row_def split: sum.splits)
  ultimately show ?thesis
    using stage_overview by blast
qed

lemma example_motif_files:
  "tmp_file example_args ''N'' = ''out/N/beds/N.tmp''"
  "os_path_join (outdir example_args) [''M'', ''M_overview.txt''] = ''out/M/M_overview.txt''"
  by (simp_all add: tmp_file_def example_args_def os_path_join_def join_step_def)

theorem failed_motif_is_skipped_witness:
  "(''N'', OSError) \<in> set (reported (statistics_stage example_libs example_files example_args
       [(''WT'', ''KO'') \<mapsto> (0, 1 / 4)] [''N'', ''M''])) \<and>
   ''N'' \<notin> fst ` set (overview (statistics_stage example_libs example_files example_args
       [(''WT'', ''KO'') \<mapsto> (0, 1 / 4)] [''N'', ''M''])) \<and>
   overview (statistics_stage example_libs example_files example_args
       [(''WT'', ''KO'') \<mapsto> (0, 1 / 4)] [''N'', ''M'']) =
     [(''M'', example_info (33333 / 100000)
                (ttest_ind_from_stats example_libs (1 / 4) (5 / 4) 2 0 (1 / 4) 2))] \<and>
   (\<exists>e. (''M'', e) \<in> set (reported (statistics_stage example_libs overview_fails example_args
       [(''WT'', ''KO'') \<mapsto> (0, 1 / 4)] [''M'']))) \<and>
   overview (statistics_stage example_libs overview_fails example_args
       [(''WT'', ''KO'') \<mapsto> (0, 1 / 4)] [''M'']) = []"
proof -
  let ?params = "[(''WT'', ''KO'') \<mapsto> (0, 1 / 4 :: real)]"
  have p1: "?params (''WT'', ''KO'') = Some (0, 1 / 4)" by simp
  have d1: "(1 / 4 :: real) \<noteq> 0 \<longrightarrow> (5 / 4 :: real) + 1 / 4 \<noteq> 0" by simp
  obtain evs where m:
    "process_tfbs example_libs example_files ''M'' example_args ?params
       = (evs, Inr (example_info (33333 / 100000)
                      (ttest_ind_from_stats example_libs (1 / 4) (5 / 4) 2 0 (1 / 4) 2)))"
    using example_run[where params = ?params, OF p1 d1]
    by (auto simp: round5_examples)
  have n: "genfromtxt example_files (tmp_file example_args ''N'') = Inl OSError"
    by (simp add: example_motif_files example_files_def)
  have n': "process_tfbs example_libs example_files ''N'' example_args ?params = ([], Inl OSError)"
    using n by (rule unreadable_task)
  have o: "\<exists>path \<in> set (table_files example_args ''M''). to_csv_raises overview_fails path \<noteq> None"
    by (rule bexI[where x = "''out/M/M_overview.txt''"])
       (simp_all add: overview_fails_def table_files_def example_motif_files)
  have first: "(''N'', OSError) \<in> set (reported (statistics_stage example_libs example_files
        example_args ?params [''N'', ''M''])) \<and>
      ''N'' \<notin> fst ` set (overview (statistics_stage example_libs example_files example_args
        ?params [''N'', ''M''])) \<and>
      overview (statistics_stage example_libs example_files example_args ?params [''N'', ''M'']) =
        [(''M'', example_info (33333 / 100000)
                   (ttest_ind_from_stats example_libs (1 / 4) (5 / 4) 2 0 (1 / 4) 2))]"
    using failed_motif_is_skipped[where TF = "''N''" and TFs = "[''N'', ''M'']"
        and fs = example_files and a = example_args and lib = example_libs and params = ?params]
      n
    by (simp add: returned_row_def n' m)
  have second: "(\<exists>e. (''M'', e) \<in> set (reported (statistics_stage example_libs overview_fails
        example_args ?params [''M'']))) \<and>
      overview (statistics_stage example_libs overview_fails example_args ?params [''M'']) = []"
    using failed_motif_is_skipped[where TF = "''M''" and TFs = "[''M'']"
        and fs = overview_fails and a = example_args and lib = example_libs and params = ?params]
      o
    by (auto simp: returned_row_def split: sum.splits)
  show ?thesis using first second by blast
qed

section \<open>The positions sampled in a region\<close>

text \<open>
  Lines 99--101 for a region of length 1 or more: the generator is seeded with the length
  of the region and asked for \<open>max(1, int(length / 500))\<close> positions of \<open>range(length)\<close>.
\<close>

lemma positions_of_region:
  assumes "0 < get_length r"
  shows "rand_positions env r =
           Inr (sample env (get_length r) (nat (get_length r))
                  (nat (max 1 (get_length r div 500))))"
proof -
  have "get_length r div 500 \<le> get_length r div 1"
    by (rule zdiv_mono2) (use assms in simp_all)
  then have "get_length r div 500 \<le> get_length r"
    by simp
  then have "\<not> max 0 (get_length r) < max 1 (get_length r div 500)"
    and "\<not> max 1 (get_length r div 500) < 0"
    using assms by simp_all
  then show ?thesis
    using assms
    by (simp only: rand_positions_def random_sample_def sample_size_def int_quotient_def
        rand_window_def Let_def) simp
qed

text \<open>No region of length 1 or more is without a sampled position.\<close>

lemma some_position_sampled:
  assumes "0 < get_length r"
    and "\<And>seed n k. k \<le> n \<Longrightarrow> length (sample env seed n k) = k"
    and "rand_positions env r = Inr ps"
  shows "length ps = nat (max 1 (get_length r div 500))" and "ps \<noteq> []"
proof -
  have "get_length r div 500 \<le> get_length r div 1"
    by (rule zdiv_mono2) (use assms(1) in simp_all)
  then have "nat (max 1 (get_length r div 500)) \<le> nat (get_length r)"
    using assms(1) by simp
  from assms(2)[OF this]
  have "length (sample env (get_length r) (nat (get_length r))
                  (nat (max 1 (get_length r div 500)))) = nat (max 1 (get_length r div 500))" .
  moreover have "ps = sample env (get_length r) (nat (get_length r))
                  (nat (max 1 (get_length r div 500)))"
    using assms(3) positions_of_region[OF assms(1), of env] by simp
  ultimately show "length ps = nat (max 1 (get_length r div 500))" by simp
  then show "ps \<noteq> []" by auto
qed






section \<open>What a call samples, region by region\<close>

lemma read_loop_signal:
  assumes "for_loop (read_footprints env r ps) (fp, d) cs = Inr (fp', d')"
  shows "(\<forall>c \<in> set cs. \<exists>b. sampled_signal env r ps c = Inr b) \<and>
         (\<forall>c. signal d' c =
               map_option (\<lambda>xs. xs @ concat (replicate (count_list cs c)
                   (case sampled_signal env r ps c of Inl e \<Rightarrow> [] | Inr b \<Rightarrow> b)))
                 (signal d c))"
  using assms
proof (induction cs arbitrary: fp d)
  case Nil
  then show ?case by (simp add: option.map_ident)
next
  case (Cons c0 cs)
  from Cons.prems obtain fp1 d1 where
    step: "read_footprints env r ps (fp, d) c0 = Inr (fp1, d1)" and
    rest: "for_loop (read_footprints env r ps) (fp1, d1) cs = Inr (fp', d')"
    by (auto split: sum.splits)
  note IH = Cons.IH[OF rest]
  show ?case
  proof (cases "bw_values env c0 r")
    case None
    with step have d1: "d1 = d\<lparr>logged := logged d @ [r]\<rparr>"
      by (simp add: read_footprints_def)
    have s0: "sampled_signal env r ps c0 = Inr []"
      by (simp add: sampled_signal_def None)
    show ?thesis
    proof (intro conjI ballI allI)
      fix c assume "c \<in> set (c0 # cs)"
      then show "\<exists>b. sampled_signal env r ps c = Inr b" using IH s0 by auto
    next
      fix c
      show "signal d' c =
               map_option (\<lambda>xs. xs @ concat (replicate (count_list (c0 # cs) c)
                   (case sampled_signal env r ps c of Inl e \<Rightarrow> [] | Inr b \<Rightarrow> b)))
                 (signal d c)"
        using IH s0 by (cases "c = c0") (simp_all add: d1)
    qed
  next
    case (Some vals)
    with step obtain sampled bg where
      sampled: "for_each (\<lambda>pos. item (nan_to_num vals) (int pos)) ps = Inr sampled" and
      bg: "signal d c0 = Some bg" and
      d1: "d1 = d\<lparr>signal := (signal d)(c0 \<mapsto> bg @ sampled)\<rparr>"
      by (auto simp: read_footprints_def Let_def and_then_eq_Inr split: option.splits)
    have s0: "sampled_signal env r ps c0 = Inr sampled"
      by (simp add: sampled_signal_def Some sampled)
    show ?thesis
    proof (intro conjI ballI allI)
      fix c assume "c \<in> set (c0 # cs)"
      then show "\<exists>b. sampled_signal env r ps c = Inr b" using IH s0 by auto
    next
      fix c
      show "signal d' c =
               map_option (\<lambda>xs. xs @ concat (replicate (count_list (c0 # cs) c)
                   (case sampled_signal env r ps c of Inl e \<Rightarrow> [] | Inr b \<Rightarrow> b)))
                 (signal d c)"
      proof (cases "c = c0")
        case True
        have "signal d' c0 =
                Some ((bg @ sampled) @ concat (replicate (count_list cs c0) sampled))"
          using IH by (simp add: d1 s0)
        then show ?thesis by (simp add: True bg s0)
      next
        case False
        then show ?thesis using IH by (simp add: d1)
      qed
    qed
  qed
qed

lemma block_of_condition:
  assumes "rand_positions env r = Inr ps"
    and "\<forall>c \<in> set (conditions env). \<exists>b. sampled_signal env r ps c = Inr b"
  shows "concat (replicate (count_list (conditions env) c)
           (case sampled_signal env r ps c of Inl e \<Rightarrow> [] | Inr b \<Rightarrow> b)) = block_signal env c r"
    and "c \<in> set (conditions env) \<Longrightarrow> signal_block env c r = Inr (block_signal env c r)"
proof -
  show "concat (replicate (count_list (conditions env) c)
           (case sampled_signal env r ps c of Inl e \<Rightarrow> [] | Inr b \<Rightarrow> b)) = block_signal env c r"
  proof (cases "sampled_signal env r ps c")
    case (Inl e)
    then have "c \<notin> set (conditions env)" using assms(2) by auto
    then have "count_list (conditions env) c = 0" by (simp add: count_list_0_iff)
    then show ?thesis
      by (simp add: block_signal_def signal_block_def assms(1) Inl)
  next
    case (Inr b)
    then show ?thesis
      by (simp add: block_signal_def signal_block_def assms(1))
  qed
  show "signal_block env c r = Inr (block_signal env c r)" if "c \<in> set (conditions env)"
  proof -
    from assms(2) that obtain b where "sampled_signal env r ps c = Inr b" by auto
    then show ?thesis
      by (simp add: block_signal_def signal_block_def assms(1))
  qed
qed

lemma scan_region_blocks:
  assumes "scan_region env d r = Inr d'"
  shows "gc_block env r = Inr (block_gc env r) \<and> gc d' = gc d @ block_gc env r \<and>
         (\<forall>c \<in> set (conditions env). signal_block env c r = Inr (block_signal env c r)) \<and>
         (\<forall>c. signal d' c = map_option (\<lambda>xs. xs @ block_signal env c r) (signal d c))"
proof -
  from assms obtain ps fp d1 g sampled sites where
    ps: "rand_positions env r = Inr ps" and
    reads: "for_loop (read_footprints env r ps) (Map.empty, d) (conditions env) = Inr (fp, d1)" and
    g: "rolling_gc env r = Inr g" and
    sampled: "for_each (\<lambda>pos. item (slice g (Some extend_bp) (Some (- extend_bp))) (int pos)) ps
                = Inr sampled" and
    collected: "for_loop collect (d1\<lparr>gc := gc d1 @ sampled\<rparr>) sites = Inr d'"
    by (auto simp: scan_region_def and_then_eq_Inr Let_def)
  note r = read_loop_signal[OF reads]
  note f = read_loop_fields[OF reads]
  note c = collect_loop_fields[OF collected]
  note b = block_of_condition[OF ps conjunct1[OF r]]
  have gcb: "gc_block env r = Inr sampled"
    by (simp add: gc_block_def ps g sampled)
  then have bg: "block_gc env r = sampled"
    by (simp add: block_gc_def)
  have "gc d' = gc d @ block_gc env r"
    using c f by (simp add: bg)
  moreover have "signal d' c = map_option (\<lambda>xs. xs @ block_signal env c r) (signal d c)" for c
    using c conjunct2[OF r] b(1)[of c] by simp
  ultimately show ?thesis
    using gcb bg b(2) by simp
qed

lemma scan_regions_blocks:
  assumes "for_loop (scan_region env) d rs = Inr d'"
  shows "for_each (gc_block env) rs = Inr (map (block_gc env) rs) \<and>
         gc d' = gc d @ concat (map (block_gc env) rs) \<and>
         (\<forall>c \<in> set (conditions env).
            for_each (signal_block env c) rs = Inr (map (block_signal env c) rs)) \<and>
         (\<forall>c. signal d' c =
               map_option (\<lambda>xs. xs @ concat (map (block_signal env c) rs)) (signal d c))"
  using assms
proof (induction rs arbitrary: d)
  case Nil
  then show ?case by (simp add: option.map_ident)
next
  case (Cons r rs)
  from Cons.prems obtain d1 where
    step: "scan_region env d r = Inr d1" and rest: "for_loop (scan_region env) d1 rs = Inr d'"
    by (auto split: sum.splits)
  note one = scan_region_blocks[OF step]
  note more = Cons.IH[OF rest]
  show ?case
  proof (intro conjI ballI allI)
    show "for_each (gc_block env) (r # rs) = Inr (map (block_gc env) (r # rs))"
      using one more by simp
    show "gc d' = gc d @ concat (map (block_gc env) (r # rs))"
      using one more by simp
  next
    fix c assume "c \<in> set (conditions env)"
    then show "for_each (signal_block env c) (r # rs) = Inr (map (block_signal env c) (r # rs))"
      using one more by simp
  next
    fix c
    show "signal d' c =
               map_option (\<lambda>xs. xs @ concat (map (block_signal env c) (r # rs))) (signal d c)"
      using one more by (simp add: option.map_comp comp_def)
  qed
qed

lemma scan_and_score_blocks:
  assumes "scan_and_score env rs = Inr out"
  shows "for_each (gc_block env) rs = Inr (map (block_gc env) rs)"
    and "background_gc out = concat (map (block_gc env) rs)"
    and "\<And>c. c \<in> set (conditions env) \<Longrightarrow>
           for_each (signal_block env c) rs = Inr (map (block_signal env c) rs)"
    and "\<And>c. c \<in> set (conditions env) \<Longrightarrow>
           background_signal out c = Some (concat (map (block_signal env c) rs))"
proof -
  from assms obtain s where
    s: "for_loop (scan_region env) (initial_state env) rs = Inr s" and
    out: "background_gc out = gc s" "background_signal out = signal s"
    by (rule scan_and_score_Inr)
  note b = scan_regions_blocks[OF s]
  show "for_each (gc_block env) rs = Inr (map (block_gc env) rs)" using b by simp
  show "background_gc out = concat (map (block_gc env) rs)" using b by (simp add: out)
  show "for_each (signal_block env c) rs = Inr (map (block_signal env c) rs)"
    if "c \<in> set (conditions env)" for c
    using b that by simp
  show "background_signal out c = Some (concat (map (block_signal env c) rs))"
    if "c \<in> set (conditions env)" for c
    using b that by (simp add: out)
qed

section \<open>The rows of the background sample\<close>

lemma length_joint_rows [simp]: "length (joint_rows cs g f) = length g"
  by (simp add: joint_rows_def)

lemma nth_joint_rows:
  "i < length g \<Longrightarrow> joint_rows cs g f ! i = (g ! i, map (\<lambda>c. f c ! i) cs)"
  by (simp add: joint_rows_def)

lemma joint_rows_append:
  assumes "\<And>c. c \<in> set cs \<Longrightarrow> length (f1 c) = length g1"
  shows "joint_rows cs (g1 @ g2) (\<lambda>c. f1 c @ f2 c) = joint_rows cs g1 f1 @ joint_rows cs g2 f2"
proof (rule nth_equalityI)
  show "length (joint_rows cs (g1 @ g2) (\<lambda>c. f1 c @ f2 c)) =
          length (joint_rows cs g1 f1 @ joint_rows cs g2 f2)"
    by simp
next
  fix i
  assume "i < length (joint_rows cs (g1 @ g2) (\<lambda>c. f1 c @ f2 c))"
  then have i: "i < length g1 + length g2" by simp
  show "joint_rows cs (g1 @ g2) (\<lambda>c. f1 c @ f2 c) ! i =
          (joint_rows cs g1 f1 @ joint_rows cs g2 f2) ! i"
  proof (cases "i < length g1")
    case True
    have "map (\<lambda>c. (f1 c @ f2 c) ! i) cs = map (\<lambda>c. f1 c ! i) cs"
      by (rule map_cong[OF refl]) (simp add: nth_append assms True)
    then show ?thesis
      using True i by (simp add: nth_joint_rows nth_append)
  next
    case False
    then have j: "i - length g1 < length g2" using i by simp
    have "map (\<lambda>c. (f1 c @ f2 c) ! i) cs = map (\<lambda>c. f2 c ! (i - length g1)) cs"
      by (rule map_cong[OF refl]) (simp add: nth_append assms False)
    then show ?thesis
      using False i j by (simp add: nth_joint_rows nth_append)
  qed
qed

lemma joint_rows_cong:
  assumes "\<And>c. c \<in> set cs \<Longrightarrow> f c = f' c"
  shows "joint_rows cs g f = joint_rows cs g f'"
  using assms by (simp add: joint_rows_def cong: map_cong)

lemma joint_rows_concat:
  assumes "\<And>r c. r \<in> set rs \<Longrightarrow> c \<in> set cs \<Longrightarrow> length (sf c r) = length (gf r)"
  shows "joint_rows cs (concat (map gf rs)) (\<lambda>c. concat (map (sf c) rs)) =
           concat (map (\<lambda>r. joint_rows cs (gf r) (\<lambda>c. sf c r)) rs)"
  using assms
proof (induction rs)
  case Nil
  then show ?case by (simp add: joint_rows_def)
next
  case (Cons r rs)
  have "joint_rows cs (gf r @ concat (map gf rs)) (\<lambda>c. sf c r @ concat (map (sf c) rs)) =
          joint_rows cs (gf r) (\<lambda>c. sf c r) @
          joint_rows cs (concat (map gf rs)) (\<lambda>c. concat (map (sf c) rs))"
    by (rule joint_rows_append) (simp add: Cons.prems)
  then show ?case using Cons by simp
qed

lemma count_list_distinct: "distinct xs \<Longrightarrow> x \<in> set xs \<Longrightarrow> count_list xs x = 1"
  by (induction xs) (auto simp: count_list_0_iff)

text \<open>
  With distinct conditions whose tracks can all be read, the values of a region stand
  side by side: as many for every condition as there are GC values.
\<close>

lemma blocks_side_by_side:
  assumes "gc_block env r = Inr g" and "signal_block env c r = Inr b"
    and "distinct (conditions env)" and "c \<in> set (conditions env)"
    and "bw_values env c r \<noteq> None"
  shows "length b = length g"
proof -
  from assms(1) obtain ps gx where
    ps: "rand_positions env r = Inr ps" and
    g: "for_each (\<lambda>pos. item (slice gx (Some extend_bp) (Some (- extend_bp))) (int pos)) ps = Inr g"
    by (auto simp: gc_block_def and_then_eq_Inr)
  from assms(5) obtain vals where vals: "bw_values env c r = Some vals" by auto
  from assms(2) obtain sampled where
    sampled: "for_each (\<lambda>pos. item (nan_to_num vals) (int pos)) ps = Inr sampled" and
    b: "b = concat (replicate (count_list (conditions env) c) sampled)"
    by (auto simp: signal_block_def ps sampled_signal_def vals and_then_eq_Inr)
  show ?thesis
    using for_each_length[OF g] for_each_length[OF sampled]
    by (simp add: b count_list_distinct[OF assms(3,4)])
qed

lemma scan_and_score_rows:
  assumes "scan_and_score env rs = Inr out"
    and "distinct (conditions env)"
    and "\<And>r c. r \<in> set rs \<Longrightarrow> c \<in> set (conditions env) \<Longrightarrow> bw_values env c r \<noteq> None"
  shows "sample_rows (conditions env) out = concat (map (region_rows env) rs)"
proof -
  note b = scan_and_score_blocks[OF assms(1)]
  have each: "gc_block env r = Inr (block_gc env r)" if "r \<in> set rs" for r
    using b(1) that by (auto simp: for_each_eq_Inr list_all2_conv_all_nth in_set_conv_nth)
  have each': "signal_block env c r = Inr (block_signal env c r)"
    if "r \<in> set rs" "c \<in> set (conditions env)" for r c
    using b(3)[OF that(2)] that(1)
    by (auto simp: for_each_eq_Inr list_all2_conv_all_nth in_set_conv_nth)
  have side: "length (block_signal env c r) = length (block_gc env r)"
    if "r \<in> set rs" "c \<in> set (conditions env)" for r c
    using blocks_side_by_side[OF each[OF that(1)] each'[OF that] assms(2) that(2) assms(3)[OF that]] .
  have "sample_rows (conditions env) out =
          joint_rows (conditions env) (concat (map (block_gc env) rs))
            (\<lambda>c. concat (map (block_signal env c) rs))"
    unfolding sample_rows_def b(2)
    by (rule joint_rows_cong) (simp add: values_of_def b(4))
  also have "\<dots> = concat (map (region_rows env) rs)"
    unfolding region_rows_def by (rule joint_rows_concat) (rule side)
  finally show ?thesis .
qed

lemma chunks_rows:
  assumes "for_each (scan_and_score env) chunks = Inr results"
    and "distinct (conditions env)"
    and "\<And>r c. r \<in> set (concat chunks) \<Longrightarrow> c \<in> set (conditions env) \<Longrightarrow> bw_values env c r \<noteq> None"
  shows "background_sample (conditions env) results =
           (\<Sum>r\<leftarrow>concat chunks. mset (region_rows env r))"
  using assms(1,3)
proof (induction chunks arbitrary: results)
  case Nil
  then show ?case by (simp add: background_sample_def)
next
  case (Cons rs chunks)
  from Cons.prems(1) obtain out outs where
    results: "results = out # outs" and
    out: "scan_and_score env rs = Inr out" and
    outs: "for_each (scan_and_score env) chunks = Inr outs"
    unfolding for_each_Cons_eq_Inr by blast
  have "sample_rows (conditions env) out = concat (map (region_rows env) rs)"
    by (rule scan_and_score_rows[OF out assms(2)]) (simp add: Cons.prems(2))
  moreover have "background_sample (conditions env) outs =
           (\<Sum>r\<leftarrow>concat chunks. mset (region_rows env r))"
    by (rule Cons.IH[OF outs]) (simp add: Cons.prems(2))
  ultimately show ?case
    by (simp add: results background_sample_def mset_concat comp_def)
qed

section \<open>A scan in other chunks and another order\<close>

lemma scan_regions_each:
  assumes "for_loop (scan_region env) (initial_state env) rs = Inr s" and "r \<in> set rs"
  shows "\<exists>d. scan_region env (initial_state env) r = Inr d"
  using assms
proof (induction rs arbitrary: s)
  case Nil
  then show ?case by simp
next
  case (Cons r0 rs)
  from Cons.prems(1) obtain d s1 where
    d: "scan_region env (initial_state env) r0 = Inr d" and
    s1: "for_loop (scan_region env) (initial_state env) rs = Inr s1"
    unfolding scan_regions_Cons by (auto simp: and_then_eq_Inr map_sum_def split: sum.splits)
  show ?case
    using Cons.prems(2) d Cons.IH[OF s1] by auto
qed

lemma chunks_regions:
  assumes "for_each (scan_and_score env) chunks = Inr results" and "r \<in> set (concat chunks)"
  shows "\<exists>d. scan_region env (initial_state env) r = Inr d"
proof -
  from assms(2) obtain rs where rs: "rs \<in> set chunks" "r \<in> set rs" by auto
  from assms(1) have "list_all2 (\<lambda>x y. scan_and_score env x = Inr y) chunks results"
    by (simp add: for_each_eq_Inr)
  then obtain out where "scan_and_score env rs = Inr out"
    using rs(1) by (auto simp: list_all2_conv_all_nth in_set_conv_nth)
  then obtain s where "for_loop (scan_region env) (initial_state env) rs = Inr s"
    by (rule scan_and_score_Inr)
  from scan_regions_each[OF this rs(2)] show ?thesis .
qed

lemma chunks_queues:
  assumes "for_each (scan_and_score env) chunks = Inr results" and "chunks \<noteq> []"
  shows "set (motif_names env) \<subseteq> set (queue_names env)"
proof -
  from assms obtain rs chunks1 where "chunks = rs # chunks1" by (cases chunks) auto
  with assms(1) have "for_each (scan_and_score env) (rs # chunks1) = Inr results" by simp
  then obtain out where "scan_and_score env rs = Inr out"
    unfolding for_each_Cons_eq_Inr by blast
  then obtain s sent global_TFBS where
    "for_loop (scan_region env) (initial_state env) rs = Inr s"
    "for_loop (send_sites env (all_TFBS s)) ([], []) (dict_keys (motif_names env))
       = Inr (sent, global_TFBS)"
    by (rule scan_and_score_Inr)
  from send_loop_queues[OF this(2)] show ?thesis by simp
qed

lemma for_each_succeeds:
  assumes "\<And>x. x \<in> set xs \<Longrightarrow> \<exists>y. f x = Inr y"
  shows "\<exists>ys. for_each f xs = Inr ys"
  using assms
proof (induction xs)
  case Nil
  then show ?case by simp
next
  case (Cons x xs)
  obtain y where "f x = Inr y" using Cons.prems by auto
  moreover obtain ys where "for_each f xs = Inr ys" using Cons by auto
  ultimately show ?case by simp
qed

lemma sum_list_mset_eq:
  fixes f :: "'a \<Rightarrow> 'b multiset"
  assumes "mset xs = mset ys"
  shows "(\<Sum>x\<leftarrow>xs. f x) = (\<Sum>x\<leftarrow>ys. f x)"
proof -
  have "(\<Sum>x\<leftarrow>zs. f x) = sum_mset (image_mset f (mset zs))" for zs
    by (simp flip: sum_mset_sum_list)
  then show ?thesis using assms by simp
qed

lemma other_chunks_succeed:
  assumes "for_each (scan_and_score env) chunks = Inr results" and "chunks \<noteq> []"
    and "mset (concat chunks') = mset (concat chunks)"
  shows "\<exists>results'. for_each (scan_and_score env) chunks' = Inr results'"
proof -
  have queues: "set (motif_names env) \<subseteq> set (queue_names env)"
    using chunks_queues[OF assms(1,2)] .
  have "\<exists>out. scan_and_score env rs = Inr out" if rs: "rs \<in> set chunks'" for rs
  proof -
    have "\<exists>d. scan_region env (initial_state env) r = Inr d" if "r \<in> set rs" for r
    proof -
      have "r \<in> set (concat chunks')" using rs that by auto
      then have "r \<in> set (concat chunks)" using assms(3) by (metis set_mset_mset)
      then show ?thesis by (rule chunks_regions[OF assms(1)])
    qed
    then obtain s where "for_loop (scan_region env) (initial_state env) rs = Inr s"
      using scan_regions_succeed by blast
    then show ?thesis using queues by (rule scan_and_score_succeeds)
  qed
  then show ?thesis using for_each_succeeds by blast
qed

text \<open>
  C4. The random positions of a region are drawn with the length of the region as the
  seed, and as the range and the number of positions too: for a region of length 1 or
  more they are \<open>sample(seed = length, range(length), max(1, int(length / 500)))\<close>. What a
  call returns is made of the values at these positions, region by region in the order
  of the call: the GC values of its regions, and for every condition the signal values
  of its regions. When a scan of the regions in chunks, a call of \<open>scan_and_score\<close> for
  each chunk, has returned, a scan of the same regions in any other order and any other
  chunks returns too; and with distinct conditions whose tracks can be read over every
  region, the two scans hold the same background sample: the same rows of a GC value
  and the signal values of the conditions at one position, each row as often.
\<close>

theorem background_sample_deterministic:
  "(0 < get_length r \<longrightarrow>
      rand_positions env r =
        Inr (sample env (get_length r) (nat (get_length r)) (nat (max 1 (get_length r div 500))))) \<and>
   (scan_and_score env regions = Inr out \<longrightarrow>
      for_each (gc_block env) regions = Inr (map (block_gc env) regions) \<and>
      background_gc out = concat (map (block_gc env) regions) \<and>
      (\<forall>c \<in> set (conditions env).
         for_each (signal_block env c) regions = Inr (map (block_signal env c) regions) \<and>
         background_signal out c = Some (concat (map (block_signal env c) regions)))) \<and>
   (for_each (scan_and_score env) chunks = Inr results \<and> chunks \<noteq> [] \<and>
    mset (concat chunks') = mset (concat chunks) \<longrightarrow>
      (\<exists>results'. for_each (scan_and_score env) chunks' = Inr results' \<and>
         (distinct (conditions env) \<and>
          (\<forall>r \<in> set (concat chunks). \<forall>c \<in> set (conditions env). bw_values env c r \<noteq> None) \<longrightarrow>
            background_sample (conditions env) results' =
            background_sample (conditions env) results)))"
proof (intro conjI impI)
  assume "0 < get_length r"
  then show "rand_positions env r =
        Inr (sample env (get_length r) (nat (get_length r)) (nat (max 1 (get_length r div 500))))"
    by (rule positions_of_region)
next
  assume out: "scan_and_score env regions = Inr out"
  note b = scan_and_score_blocks[OF out]
  show "for_each (gc_block env) regions = Inr (map (block_gc env) regions)" by (rule b(1))
  show "background_gc out = concat (map (block_gc env) regions)" by (rule b(2))
  show "\<forall>c \<in> set (conditions env).
         for_each (signal_block env c) regions = Inr (map (block_signal env c) regions) \<and>
         background_signal out c = Some (concat (map (block_signal env c) regions))"
    using b(3,4) by blast
next
  assume a: "for_each (scan_and_score env) chunks = Inr results \<and> chunks \<noteq> [] \<and>
    mset (concat chunks') = mset (concat chunks)"
  then have first: "for_each (scan_and_score env) chunks = Inr results"
    and some: "chunks \<noteq> []" and same: "mset (concat chunks') = mset (concat chunks)"
    by simp_all
  from other_chunks_succeed[OF first some same] obtain results' where
    second: "for_each (scan_and_score env) chunks' = Inr results'"
    by blast
  have "background_sample (conditions env) results' = background_sample (conditions env) results"
    if d: "distinct (conditions env)"
      and readable: "\<forall>r \<in> set (concat chunks). \<forall>c \<in> set (conditions env). bw_values env c r \<noteq> None"
  proof -
    have s: "set (concat chunks') = set (concat chunks)"
      using same by (metis set_mset_mset)
    have one: "background_sample (conditions env) results =
                 (\<Sum>r\<leftarrow>concat chunks. mset (region_rows env r))"
      by (rule chunks_rows[OF first d]) (use readable in blast)
    have two: "background_sample (conditions env) results' =
                 (\<Sum>r\<leftarrow>concat chunks'. mset (region_rows env r))"
      by (rule chunks_rows[OF second d]) (use readable s in blast)
    show ?thesis
      unfolding one two by (rule sum_list_mset_eq[OF same])
  qed
  with second show "\<exists>results'. for_each (scan_and_score env) chunks' = Inr results' \<and>
         (distinct (conditions env) \<and>
          (\<forall>r \<in> set (concat chunks). \<forall>c \<in> set (conditions env). bw_values env c r \<noteq> None) \<longrightarrow>
            background_sample (conditions env) results' =
            background_sample (conditions env) results)"
    by blast
qed

theorem background_sample_deterministic_witness:
  "rand_positions example_scanner (example_region 100 110) =
     Inr (sample example_scanner 10 10 1) \<and>
   background_gc example_result =
     concat (map (block_gc example_scanner) [example_region 100 110, example_region 300 320]) \<and>
   background_signal example_result ''WT'' =
     Some (concat (map (block_signal example_scanner ''WT'')
             [example_region 100 110, example_region 300 320])) \<and>
   (\<exists>results'.
      for_each (scan_and_score example_scanner)
        [[example_region 300 320], [example_region 100 110]] = Inr results' \<and>
      background_sample [''WT''] results' = background_sample [''WT''] [example_result])"
proof -
  note th = background_sample_deterministic[where r = "example_region 100 110"
      and env = example_scanner
      and regions = "[example_region 100 110, example_region 300 320]"
      and out = example_result
      and chunks = "[[example_region 100 110, example_region 300 320]]"
      and results = "[example_result]"
      and chunks' = "[[example_region 300 320], [example_region 100 110]]"]
  have l: "0 < get_length (example_region 100 110)"
    "nat (max 1 (get_length (example_region 100 110) div 500)) = 1"
    "nat (get_length (example_region 100 110)) = 10"
    by (simp_all add: example_lengths)
  have c: "conditions example_scanner = [''WT'']" by (rule example_settings(1))
  have h: "for_each (scan_and_score example_scanner)
      [[example_region 100 110, example_region 300 320]] = Inr [example_result] \<and>
      [[example_region 100 110, example_region 300 320]] \<noteq> [] \<and>
      mset (concat [[example_region 300 320], [example_region 100 110]]) =
      mset (concat [[example_region 100 110, example_region 300 320]])"
    by (simp add: example_scan)
  have d: "distinct (conditions example_scanner) \<and>
      (\<forall>r \<in> set (concat [[example_region 100 110, example_region 300 320]]).
         \<forall>c \<in> set (conditions example_scanner). bw_values example_scanner c r \<noteq> None)"
    by (simp add: c example_tracks)
  from th l(1) have "rand_positions example_scanner (example_region 100 110) =
      Inr (sample example_scanner (get_length (example_region 100 110))
             (nat (get_length (example_region 100 110)))
             (nat (max 1 (get_length (example_region 100 110) div 500))))"
    by blast
  then have first: "rand_positions example_scanner (example_region 100 110) =
     Inr (sample example_scanner 10 10 1)"
    by (simp add: example_lengths)
  from th example_scan have
    "background_gc example_result =
       concat (map (block_gc example_scanner) [example_region 100 110, example_region 300 320]) \<and>
     (\<forall>c \<in> set (conditions example_scanner).
        for_each (signal_block example_scanner c)
          [example_region 100 110, example_region 300 320] =
          Inr (map (block_signal example_scanner c)
                 [example_region 100 110, example_region 300 320]) \<and>
        background_signal example_result c =
          Some (concat (map (block_signal example_scanner c)
                  [example_region 100 110, example_region 300 320])))"
    by blast
  then have second: "background_gc example_result =
       concat (map (block_gc example_scanner) [example_region 100 110, example_region 300 320]) \<and>
     background_signal example_result ''WT'' =
       Some (concat (map (block_signal example_scanner ''WT'')
               [example_region 100 110, example_region 300 320]))"
    by (simp add: c)
  from th h d have "\<exists>results'.
      for_each (scan_and_score example_scanner)
        [[example_region 300 320], [example_region 100 110]] = Inr results' \<and>
      background_sample (conditions example_scanner) results' =
      background_sample (conditions example_scanner) [example_result]"
    by blast
  then have third: "\<exists>results'.
      for_each (scan_and_score example_scanner)
        [[example_region 300 320], [example_region 100 110]] = Inr results' \<and>
      background_sample [''WT''] results' = background_sample [''WT''] [example_result]"
    by (simp only: c)
  show ?thesis using first second third by blast
qed

end
